theory Spec2Isabelle
  imports Complex_Main "HOL-Library.Sublist" "HOL-Library.Multiset"
    "HOL-Library.Product_Lexorder"
begin

text \<open>
  A model of the search core of the NFZ queue finder: the province table and the
  client's \<open>request\<close> (\<open>src/lib/nfz-api.ts\<close>), the utilities \<open>formatDate\<close>,
  \<open>calculateDistance\<close> and \<open>parseReferral\<close> (the second part of the same file), and the
  ranking and summary of \<open>searchFacilities\<close> (\<open>src/components/NFZSearch.tsx\<close>). The
  definitions come first, then facts about them, then the claims of the specification.
\<close>

section \<open>JavaScript strings\<close>

text \<open>
  A JavaScript string is a sequence of UTF-16 code units; \<open>length\<close>, \<open>indexOf\<close>,
  \<open>substring\<close> and \<open>split\<close> all count code units. The model keeps that: a string is a
  list of code units, each a natural number below \<open>0x10000\<close>. \<open>ascii\<close> turns a literal of
  Basic Latin characters into its code units; other characters are written as numbers
  (\<open>0x119\<close> is LATIN SMALL LETTER E WITH OGONEK).
\<close>

type_synonym jsstring = "nat list"

definition ascii :: "string \<Rightarrow> jsstring" where
  "ascii s = map of_char s"

text \<open>The space character, the separator of \<open>split(" ")\<close>, \<open>indexOf(" ", _)\<close> and
  \<open>lastIndexOf(" ", _)\<close> in \<open>parseReferral\<close>.\<close>

definition SP :: nat where
  "SP = 0x20"

text \<open>\<open>s.includes(pat)\<close>: some suffix of \<open>s\<close> starts with \<open>pat\<close>.\<close>

fun includes_str :: "jsstring \<Rightarrow> jsstring \<Rightarrow> bool" where
  "includes_str [] pat = (pat = [])"
| "includes_str (c # cs) pat = (prefix pat (c # cs) \<or> includes_str cs pat)"

text \<open>
  \<open>s.indexOf(pat, from)\<close>: the least position \<open>i \<ge> from\<close> at which \<open>pat\<close> starts, or
  \<open>-1\<close>. \<open>searchFrom pat cs i\<close> scans the rest \<open>cs\<close> of the string, which starts at
  position \<open>i\<close>. The start position is clamped into \<open>0 .. length s\<close> as in ECMAScript.
\<close>

fun searchFrom :: "jsstring \<Rightarrow> jsstring \<Rightarrow> nat \<Rightarrow> int" where
  "searchFrom pat [] i = (if pat = [] then int i else -1)"
| "searchFrom pat (c # cs) i =
     (if prefix pat (c # cs) then int i else searchFrom pat cs (i + 1))"

definition indexOf :: "jsstring \<Rightarrow> jsstring \<Rightarrow> int \<Rightarrow> int" where
  "indexOf s pat from =
     (let k = min (nat from) (length s) in searchFrom pat (drop k s) k)"

text \<open>
  \<open>s.lastIndexOf(pat, from)\<close>: the greatest position \<open>i \<le> from\<close> at which \<open>pat\<close> starts,
  or \<open>-1\<close>; a negative \<open>from\<close> counts as \<open>0\<close>. \<open>searchLast pat cs i limit best\<close> scans the
  rest \<open>cs\<close> of the string, which starts at position \<open>i\<close>, and keeps in \<open>best\<close> the last
  match at a position not beyond \<open>limit\<close>.
\<close>

fun searchLast :: "jsstring \<Rightarrow> jsstring \<Rightarrow> nat \<Rightarrow> nat \<Rightarrow> int \<Rightarrow> int" where
  "searchLast pat [] i limit best = (if pat = [] \<and> i \<le> limit then int i else best)"
| "searchLast pat (c # cs) i limit best =
     searchLast pat cs (i + 1) limit (if i \<le> limit \<and> prefix pat (c # cs) then int i else best)"

definition lastIndexOf :: "jsstring \<Rightarrow> jsstring \<Rightarrow> int \<Rightarrow> int" where
  "lastIndexOf s pat from = searchLast pat s 0 (nat from) (-1)"

text \<open>
  \<open>s.substring(start, end)\<close>; \<open>None\<close> is the argument \<open>undefined\<close>, which stands for the
  length of the string. Both bounds are clamped into \<open>0 .. length s\<close> and swapped when
  \<open>start > end\<close>.
\<close>

definition substring :: "jsstring \<Rightarrow> int \<Rightarrow> int option \<Rightarrow> jsstring" where
  "substring s start end =
     (let len = int (length s);
          a = min (max start 0) len;
          b = (case end of None \<Rightarrow> len | Some e \<Rightarrow> min (max e 0) len);
          lo = min a b;
          hi = max a b
      in take (nat (hi - lo)) (drop (nat lo) s))"

text \<open>\<open>s.split(" ")\<close>: the pieces between single spaces; the empty string gives one
  empty piece, and a leading, trailing or doubled space gives an empty piece.\<close>

fun split_space :: "jsstring \<Rightarrow> jsstring list" where
  "split_space [] = [[]]"
| "split_space (c # cs) =
     (if c = SP then [] # split_space cs
      else (case split_space cs of
              [] \<Rightarrow> [[c]]
            | w # ws \<Rightarrow> (c # w) # ws))"

text \<open>
  \<open>String.prototype.toLowerCase\<close> is a built-in of the engine (the Unicode default case
  conversion). The functions below take it as the parameter \<open>lc\<close>, so that what is proved
  of them for every \<open>lc\<close> holds for the engine's. \<open>toLowerCase\<close> is that conversion on
  Basic Latin, Latin-1 Supplement and Latin Extended-A, which hold the Polish alphabet;
  the model leaves every other code unit as it is. It is used to evaluate concrete texts.
\<close>

definition lowerUnit :: "nat \<Rightarrow> jsstring" where
  "lowerUnit c =
     (if 0x41 \<le> c \<and> c \<le> 0x5A then [c + 0x20]
      else if 0xC0 \<le> c \<and> c \<le> 0xDE \<and> c \<noteq> 0xD7 then [c + 0x20]
      else if c = 0x130 then [0x69, 0x307]
      else if (0x100 \<le> c \<and> c \<le> 0x137 \<or> 0x14A \<le> c \<and> c \<le> 0x177) \<and> even c then [c + 1]
      else if (0x139 \<le> c \<and> c \<le> 0x148 \<or> 0x179 \<le> c \<and> c \<le> 0x17E) \<and> odd c then [c + 1]
      else if c = 0x178 then [0xFF]
      else [c])"

definition toLowerCase :: "jsstring \<Rightarrow> jsstring" where
  "toLowerCase s = concat (map lowerUnit s)"

section \<open>The province table\<close>

text \<open>\<open>PROVINCES\<close> of \<open>src/lib/nfz-api.ts\<close>: an object literal, kept as the list of its
  entries in source order.\<close>

definition PROVINCES :: "(jsstring \<times> jsstring) list" where
  "PROVINCES =
    [(ascii ''01'', ascii ''DOLNO'' @ [0x15A] @ ascii ''L'' @ [0x104] @ ascii ''SKIE''),
     (ascii ''02'', ascii ''KUJAWSKO-POMORSKIE''),
     (ascii ''03'', ascii ''LUBELSKIE''),
     (ascii ''04'', ascii ''LUBUSKIE''),
     (ascii ''05'', [0x141, 0xD3] @ ascii ''DZKIE''),
     (ascii ''06'', ascii ''MA'' @ [0x141] @ ascii ''OPOLSKIE''),
     (ascii ''07'', ascii ''MAZOWIECKIE''),
     (ascii ''08'', ascii ''OPOLSKIE''),
     (ascii ''09'', ascii ''PODKARPACKIE''),
     (ascii ''10'', ascii ''PODLASKIE''),
     (ascii ''11'', ascii ''POMORSKIE''),
     (ascii ''12'', [0x15A] @ ascii ''L'' @ [0x104] @ ascii ''SKIE''),
     (ascii ''13'', [0x15A] @ ascii ''WI'' @ [0x118] @ ascii ''TOKRZYSKIE''),
     (ascii ''14'', ascii ''WARMI'' @ [0x143] @ ascii ''SKO-MAZURSKIE''),
     (ascii ''15'', ascii ''WIELKOPOLSKIE''),
     (ascii ''16'', ascii ''ZACHODNIOPOMORSKIE'')]"

definition isDigit :: "nat \<Rightarrow> bool" where
  "isDigit c = (0x30 \<le> c \<and> c \<le> 0x39)"

definition twoDigitCode :: "jsstring \<Rightarrow> bool" where
  "twoDigitCode c = (length c = 2 \<and> list_all isDigit c)"

section \<open>The referral parser\<close>

text \<open>
  \<open>parseReferral\<close> of the utilities. The text is lower-cased, each character of the
  class \<open>[.,\/#!$%\^&\*;:{}=\-_`~()]\<close> becomes a space, and each run of two or more
  white-space characters becomes one space. A single white-space character that is not a
  space (a lone tab or line break) stays as it is.
\<close>

definition punctuation :: "nat list" where
  "punctuation = ascii ''.,/#!$%^&*;:{}=-_`~()''"

definition replacePunctuation :: "jsstring \<Rightarrow> jsstring" where
  "replacePunctuation s = map (\<lambda>c. if c \<in> set punctuation then SP else c) s"

text \<open>The class \<open>\s\<close> of an ECMAScript regular expression: white space and line
  terminators.\<close>

definition isWhiteSpace :: "nat \<Rightarrow> bool" where
  "isWhiteSpace c =
     (c \<in> {0x09, 0x0A, 0x0B, 0x0C, 0x0D, 0x20, 0xA0, 0x1680, 0x2028, 0x2029, 0x202F,
            0x205F, 0x3000, 0xFEFF}
      \<or> (0x2000 \<le> c \<and> c \<le> 0x200A))"

text \<open>\<open>s.replace(/\s{2,}/g, " ")\<close>: the matches are the maximal runs of at least two
  white-space characters, found from left to right.\<close>

function collapseWhiteSpace :: "jsstring \<Rightarrow> jsstring" where
  "collapseWhiteSpace [] = []"
| "collapseWhiteSpace (c # cs) =
     (if isWhiteSpace c \<and> takeWhile isWhiteSpace cs \<noteq> []
      then SP # collapseWhiteSpace (dropWhile isWhiteSpace cs)
      else c # collapseWhiteSpace cs)"
  by pat_completeness auto
termination
proof (relation "measure length")
  show "wf (measure length)" by simp
next
  fix c :: nat and cs :: jsstring
  show "(dropWhile isWhiteSpace cs, c # cs) \<in> measure length"
    by (simp add: less_Suc_eq_le length_dropWhile_le)
next
  fix c :: nat and cs :: jsstring
  show "(cs, c # cs) \<in> measure length" by simp
qed

definition normalizeText :: "(jsstring \<Rightarrow> jsstring) \<Rightarrow> jsstring \<Rightarrow> jsstring" where
  "normalizeText lc text = collapseWhiteSpace (replacePunctuation (lc text))"

definition stopWords :: "jsstring list" where
  "stopWords = [ascii ''i'', ascii ''do'', ascii ''na'', ascii ''w'', ascii ''z'',
                ascii ''dla'', ascii ''od'', ascii ''przez'']"

text \<open>
  The trigger words, as the source file has them. The second one is written in the
  source with the two characters U+00C5 and U+201A after \<open>oddzia\<close>.
\<close>

definition benefitKeywords :: "jsstring list" where
  "benefitKeywords = [ascii ''poradnia'', ascii ''oddzia'' @ [0xC5, 0x201A],
                      ascii ''pracownia'', ascii ''rehabilitacja'']"

text \<open>
  The body of the \<open>if\<close> inside the loop: the piece of the text around the first
  occurrence of the trigger word, from after the last space before it to the next space
  after it. \<open>end > 0 ? end : undefined\<close> makes a missing space the end of the text.
\<close>

definition phraseAround :: "jsstring \<Rightarrow> jsstring \<Rightarrow> jsstring" where
  "phraseAround normalizedText keyword =
     (let index = indexOf normalizedText keyword 0;
          start = lastIndexOf normalizedText [SP] index + 1;
          end = indexOf normalizedText [SP] (index + int (length keyword))
      in substring normalizedText start (if end > 0 then Some end else None))"

text \<open>The loop \<open>for (const keyword of benefitKeywords)\<close> with its \<open>break\<close>; the result is
  the final value of \<open>benefit\<close>, initially the empty string.\<close>

fun findBenefit :: "jsstring \<Rightarrow> jsstring list \<Rightarrow> jsstring" where
  "findBenefit normalizedText [] = []"
| "findBenefit normalizedText (keyword # rest) =
     (if includes_str normalizedText keyword then phraseAround normalizedText keyword
      else findBenefit normalizedText rest)"

record Referral =
  benefit :: jsstring
  keywordList :: "jsstring list"

definition parseReferral :: "(jsstring \<Rightarrow> jsstring) \<Rightarrow> jsstring \<Rightarrow> Referral" where
  "parseReferral lc text =
     (let normalizedText = normalizeText lc text;
          wordsList = split_space normalizedText
      in \<lparr> benefit = findBenefit normalizedText benefitKeywords,
           keywordList = filter (\<lambda>word. length word > 2 \<and> word \<notin> set stopWords) wordsList \<rparr>)"

section \<open>Numbers\<close>

text \<open>
  A JavaScript number is an IEEE 754 double. In the model a finite double is the real
  number it denotes. The comparators of \<open>Array.prototype.sort\<close> subtract two numbers, and
  only the sign of the difference is read, which is the sign of the real difference; the
  other values that occur there are \<open>Infinity\<close>, \<open>-Infinity\<close> and \<open>NaN\<close>.
\<close>

datatype number = Num real | Infinity | MinusInfinity | NaN

text \<open>The operator \<open>-\<close> on numbers.\<close>

fun minus_number :: "number \<Rightarrow> number \<Rightarrow> number" where
  "minus_number NaN y = NaN"
| "minus_number x NaN = NaN"
| "minus_number (Num a) (Num b) = Num (a - b)"
| "minus_number (Num a) Infinity = MinusInfinity"
| "minus_number (Num a) MinusInfinity = Infinity"
| "minus_number Infinity Infinity = NaN"
| "minus_number Infinity y = Infinity"
| "minus_number MinusInfinity MinusInfinity = NaN"
| "minus_number MinusInfinity y = MinusInfinity"

text \<open>The comparison \<open>x == y\<close> of two numbers, which on numbers is also \<open>x === y\<close>:
  \<open>NaN\<close> is equal to no number, itself included.\<close>

definition numberEquals :: "number \<Rightarrow> number \<Rightarrow> bool" where
  "numberEquals x y = (x \<noteq> NaN \<and> y \<noteq> NaN \<and> x = y)"

text \<open>Decimal digits of a natural number, as a template literal prints a count or a
  status code.\<close>

function showNat :: "nat \<Rightarrow> jsstring" where
  "showNat n = (if n < 10 then [0x30 + n] else showNat (n div 10) @ [0x30 + n mod 10])"
  by pat_completeness auto
termination
  by (relation "measure id") simp_all

declare showNat.simps [simp del]

section \<open>Sorting an array with a comparator\<close>

text \<open>
  \<open>array.sort(comparefn)\<close>. ECMAScript reads the comparator through \<open>SortCompare\<close>,
  which turns a \<open>NaN\<close> result into \<open>+0\<close>; \<open>isPositive v\<close> says that the result \<open>v\<close>,
  read so, is greater than zero. The sort is stable. When the comparator is consistent
  on the elements of the array, the sorted order is fixed by the standard, and it is the
  order that this insertion sort produces: \<open>x\<close> moves behind \<open>y\<close> exactly when
  \<open>comparefn(x, y) > 0\<close>. When the comparator is not consistent, the standard leaves
  the order to the engine, and the insertion sort gives one of the permitted orders.
\<close>

definition isPositive :: "number \<Rightarrow> bool" where
  "isPositive v = (case v of Num r \<Rightarrow> 0 < r | Infinity \<Rightarrow> True | MinusInfinity \<Rightarrow> False | NaN \<Rightarrow> False)"

fun insertSorted :: "('a \<Rightarrow> 'a \<Rightarrow> number) \<Rightarrow> 'a \<Rightarrow> 'a list \<Rightarrow> 'a list" where
  "insertSorted comparefn x [] = [x]"
| "insertSorted comparefn x (y # ys) =
     (if isPositive (comparefn x y) then y # insertSorted comparefn x ys else x # y # ys)"

definition sortWith :: "('a \<Rightarrow> 'a \<Rightarrow> number) \<Rightarrow> 'a list \<Rightarrow> 'a list" where
  "sortWith comparefn xs = foldr (insertSorted comparefn) xs []"

section \<open>Dates\<close>

text \<open>
  \<open>new Date(s).getTime()\<close> and \<open>toLocaleDateString\<close> are built-ins of the engine. The
  search takes them as the parameters \<open>getTime\<close> (\<open>None\<close> is \<open>NaN\<close>, the time value of
  an invalid date) and \<open>toLocaleDate\<close>, so that what is proved for every value of the
  parameters holds for the engine's functions.

  To evaluate concrete searches, \<open>dateGetTime\<close> and \<open>localeDatePL\<close> give the built-ins on
  the date-only form \<open>YYYY-MM-DD\<close> of the ECMAScript date-time string format, which
  is the form the registry sends. Such a string is midnight UTC of that day; the day
  number follows \<open>DayFromYear\<close> of the standard. Every other string is an invalid date in
  the model (the empty string is one in every engine). \<open>localeDatePL\<close> is the rendering for
  the locale \<open>pl-PL\<close> with a numeric day, the long month name and a numeric year, in a time
  zone at or east of UTC, where the local day of that instant is the same day.
\<close>

definition isLeapYear :: "nat \<Rightarrow> bool" where
  "isLeapYear y = ((y mod 4 = 0 \<and> y mod 100 \<noteq> 0) \<or> y mod 400 = 0)"

definition daysInMonth :: "nat \<Rightarrow> nat \<Rightarrow> nat" where
  "daysInMonth y m =
     (if m = 2 then (if isLeapYear y then 29 else 28)
      else if m \<in> {4, 6, 9, 11} then 30 else 31)"

definition dayFromYear :: "int \<Rightarrow> int" where
  "dayFromYear y =
     365 * (y - 1970) + (y - 1969) div 4 - (y - 1901) div 100 + (y - 1601) div 400"

definition dayWithinYear :: "nat \<Rightarrow> nat \<Rightarrow> nat \<Rightarrow> nat" where
  "dayWithinYear y m d =
     [0, 31, 59, 90, 120, 151, 181, 212, 243, 273, 304, 334] ! (m - 1)
     + (if isLeapYear y \<and> 2 < m then 1 else 0) + (d - 1)"

definition digitsValue :: "jsstring \<Rightarrow> nat" where
  "digitsValue ds = foldl (\<lambda>v c. 10 * v + (c - 0x30)) 0 ds"

definition parseIsoDate :: "jsstring \<Rightarrow> (nat \<times> nat \<times> nat) option" where
  "parseIsoDate s =
     (if length s = 10 \<and> s ! 4 = 0x2D \<and> s ! 7 = 0x2D
         \<and> list_all isDigit (take 4 s @ take 2 (drop 5 s) @ drop 8 s)
      then (let y = digitsValue (take 4 s);
                m = digitsValue (take 2 (drop 5 s));
                d = digitsValue (drop 8 s)
            in if 1 \<le> m \<and> m \<le> 12 \<and> 1 \<le> d \<and> d \<le> daysInMonth y m
               then Some (y, m, d) else None)
      else None)"

definition dateGetTime :: "jsstring \<Rightarrow> int option" where
  "dateGetTime s =
     (case parseIsoDate s of
        None \<Rightarrow> None
      | Some (y, m, d) \<Rightarrow> Some ((dayFromYear (int y) + int (dayWithinYear y m d)) * 86400000))"

definition monthNamesPL :: "jsstring list" where
  "monthNamesPL =
     [ascii ''stycznia'', ascii ''lutego'', ascii ''marca'', ascii ''kwietnia'',
      ascii ''maja'', ascii ''czerwca'', ascii ''lipca'', ascii ''sierpnia'',
      ascii ''wrze'' @ [0x15B] @ ascii ''nia'', ascii ''pa'' @ [0x17A] @ ascii ''dziernika'',
      ascii ''listopada'', ascii ''grudnia'']"

definition localeDatePL :: "jsstring \<Rightarrow> jsstring" where
  "localeDatePL s =
     (case parseIsoDate s of
        None \<Rightarrow> ascii ''Invalid Date''
      | Some (y, m, d) \<Rightarrow> showNat d @ [SP] @ monthNamesPL ! (m - 1) @ [SP] @ showNat y)"

text \<open>\<open>formatDate\<close> of the utilities; \<open>!dateString\<close> holds of the empty string.\<close>

definition formatDate :: "(jsstring \<Rightarrow> jsstring) \<Rightarrow> jsstring \<Rightarrow> jsstring" where
  "formatDate toLocaleDate dateString =
     (if dateString = [] then [] else toLocaleDate dateString)"

section \<open>The haversine distance\<close>

text \<open>
  Double arithmetic gives the exact result of an operation, rounded to a double;
  \<open>Math.sin\<close>, \<open>Math.cos\<close> and \<open>Math.atan2\<close> are approximations that the engine
  chooses. An \<open>arithmetic\<close> holds the rounding \<open>fl\<close> and these three functions, and
  \<open>calculateDistance\<close> takes it as a parameter. Two arithmetics are defined below:
  \<open>exact\<close>, arithmetic without rounding, and \<open>double\<close>, which rounds to the nearest
  double. \<open>Math.PI\<close> is the rounded \<open>pi\<close>. The coordinates are finite numbers.
\<close>

record arithmetic =
  fl :: "real \<Rightarrow> real"
  mathSin :: "real \<Rightarrow> real"
  mathCos :: "real \<Rightarrow> real"
  mathAtan2 :: "real \<Rightarrow> real \<Rightarrow> real"

definition addF :: "arithmetic \<Rightarrow> real \<Rightarrow> real \<Rightarrow> real" where
  "addF A x y = fl A (x + y)"

definition subF :: "arithmetic \<Rightarrow> real \<Rightarrow> real \<Rightarrow> real" where
  "subF A x y = fl A (x - y)"

definition mulF :: "arithmetic \<Rightarrow> real \<Rightarrow> real \<Rightarrow> real" where
  "mulF A x y = fl A (x * y)"

definition divF :: "arithmetic \<Rightarrow> real \<Rightarrow> real \<Rightarrow> real" where
  "divF A x y = fl A (x / y)"

text \<open>\<open>Math.sqrt\<close>: \<open>NaN\<close> for a negative argument, and the rounded square root
  otherwise. Its result is a finite number or \<open>NaN\<close>, never an infinity.\<close>

definition mathSqrt :: "arithmetic \<Rightarrow> real \<Rightarrow> number" where
  "mathSqrt A x = (if x < 0 then NaN else Num (fl A (sqrt x)))"

definition mathPI :: "arithmetic \<Rightarrow> real" where
  "mathPI A = fl A pi"

text \<open>\<open>Math.round\<close>: the nearest integer, a tie going up; it is exact on doubles.\<close>

definition mathRound :: "real \<Rightarrow> real" where
  "mathRound x = of_int \<lfloor>x + 1 / 2\<rfloor>"

text \<open>The angle of the point \<open>(x, y)\<close>, which \<open>Math.atan2(y, x)\<close> approximates.\<close>

definition atan2 :: "real \<Rightarrow> real \<Rightarrow> real" where
  "atan2 y x =
     (if 0 < x then arctan (y / x)
      else if x < 0 then (if 0 \<le> y then arctan (y / x) + pi else arctan (y / x) - pi)
      else if 0 < y then pi / 2
      else if y < 0 then - (pi / 2)
      else 0)"

definition exact :: arithmetic where
  "exact = \<lparr> fl = (\<lambda>x. x), mathSin = sin, mathCos = cos, mathAtan2 = atan2 \<rparr>"

text \<open>
  Rounding to the nearest double, a tie going to the even significand. A number \<open>x\<close>
  other than 0 lies in one binade, \<open>2 ^ e \<le> \<bar>x\<bar> < 2 ^ (e + 1)\<close>, in which the doubles
  are the multiples of \<open>2 ^ (e - 52)\<close>; \<open>x\<close> goes to the nearest multiple. The exponent
  is not bounded here: overflow to \<open>Infinity\<close> and the subnormal numbers are left out,
  and coordinates in degrees, with all that is computed from them, are far from both.
\<close>

definition roundHalfEven :: "real \<Rightarrow> int" where
  "roundHalfEven x =
     (let n = \<lfloor>x\<rfloor>; r = x - of_int n
      in if r < 1 / 2 then n else if 1 / 2 < r then n + 1 else if even n then n else n + 1)"

definition binade :: "real \<Rightarrow> int" where
  "binade x = \<lfloor>log 2 \<bar>x\<bar>\<rfloor>"

definition ulp :: "real \<Rightarrow> real" where
  "ulp x = 2 powr (of_int (binade x) - 52)"

definition roundDouble :: "real \<Rightarrow> real" where
  "roundDouble x = (if x = 0 then 0 else of_int (roundHalfEven (x / ulp x)) * ulp x)"

text \<open>
  The arithmetic of doubles. ECMAScript leaves the last bit of \<open>Math.sin\<close>, \<open>Math.cos\<close>
  and \<open>Math.atan2\<close> to the engine; here they are the correctly rounded functions. The
  routines of fdlibm, which the engines use, return the correctly rounded value at the
  arguments that are evaluated below: \<open>Math.sin(0.13962634015954636)\<close> is
  \<open>0.13917310096006544\<close>, \<open>Math.cos(0.13962634015954636)\<close> is \<open>0.9902680687415704\<close> and
  \<open>Math.sin(1.5707963267948966)\<close> is \<open>1\<close>.
\<close>

definition double :: arithmetic where
  "double = \<lparr> fl = roundDouble, mathSin = (\<lambda>x. roundDouble (sin x)),
              mathCos = (\<lambda>x. roundDouble (cos x)),
              mathAtan2 = (\<lambda>y x. roundDouble (atan2 y x)) \<rparr>"

text \<open>
  What the symmetry of the distance rests on: rounding commutes with negation, as
  rounding to the nearest double does, and the sine is an odd function.
\<close>

definition signSymmetric :: "arithmetic \<Rightarrow> bool" where
  "signSymmetric A =
     ((\<forall>x. fl A (- x) = - fl A x) \<and> (\<forall>x. mathSin A (- x) = - mathSin A x))"

definition deg2rad :: "arithmetic \<Rightarrow> real \<Rightarrow> real" where
  "deg2rad A deg = mulF A deg (divF A (mathPI A) 180)"

text \<open>
  \<open>calculateDistance\<close>. The number \<open>a\<close> is finite. \<open>Math.atan2\<close>, the products,
  \<open>Math.round\<close> and the quotient give \<open>NaN\<close> when an operand is \<open>NaN\<close>: so the result is
  \<open>NaN\<close> when one of the two square roots is, and otherwise it is computed from the two
  finite roots.
\<close>

definition calculateDistance :: "arithmetic \<Rightarrow> real \<Rightarrow> real \<Rightarrow> real \<Rightarrow> real \<Rightarrow> number" where
  "calculateDistance A lat1 lon1 lat2 lon2 =
     (let R = 6371;
          dLat = deg2rad A (subF A lat2 lat1);
          dLon = deg2rad A (subF A lon2 lon1);
          a = addF A
                (mulF A (mathSin A (divF A dLat 2)) (mathSin A (divF A dLat 2)))
                (mulF A
                   (mulF A
                      (mulF A (mathCos A (deg2rad A lat1)) (mathCos A (deg2rad A lat2)))
                      (mathSin A (divF A dLon 2)))
                   (mathSin A (divF A dLon 2)))
      in case (mathSqrt A a, mathSqrt A (subF A 1 a)) of
           (Num y, Num x) \<Rightarrow>
             (let c = mulF A 2 (mathAtan2 A y x);
                  distance = mulF A R c
              in Num (divF A (mathRound (mulF A distance 10)) 10))
         | _ \<Rightarrow> NaN)"

section \<open>Queue records\<close>

text \<open>
  The interfaces \<open>QueueDates\<close>, \<open>QueueAttributes\<close> and \<open>Queue\<close> of the client, with the
  fields that the search reads. \<open>RankedQueue\<close> is \<open>Queue & { distance?: number }\<close>, the type
  of the objects that the search builds with \<open>{ ...facility, distance }\<close>; \<open>None\<close> is an
  object without the property \<open>distance\<close>, and a distance that is present is a number,
  which can be \<open>NaN\<close>.
\<close>

record QueueDates =
  applicable :: bool
  date :: jsstring

record QueueAttributes =
  provider :: jsstring
  locality :: jsstring
  latitude :: real
  longitude :: real
  dates :: QueueDates

record Queue =
  id :: jsstring
  attributes :: QueueAttributes

record RankedQueue = Queue +
  distance :: "number option"

record Location =
  lat :: real
  lon :: real

definition withDistance :: "number option \<Rightarrow> Queue \<Rightarrow> RankedQueue" where
  "withDistance d facility =
     \<lparr> id = id facility, attributes = attributes facility, distance = d \<rparr>"

text \<open>The object without the added property: the \<open>Queue\<close> part of a ranked queue.\<close>

definition queueOf :: "RankedQueue \<Rightarrow> Queue" where
  "queueOf r = \<lparr> id = id r, attributes = attributes r \<rparr>"

section \<open>The search\<close>

text \<open>The comparator of the first sort:
  \<open>new Date(dateA).getTime() - new Date(dateB).getTime()\<close>.\<close>

definition timeValue :: "(jsstring \<Rightarrow> int option) \<Rightarrow> jsstring \<Rightarrow> number" where
  "timeValue getTime s = (case getTime s of None \<Rightarrow> NaN | Some t \<Rightarrow> Num (of_int t))"

definition compareDates ::
  "(jsstring \<Rightarrow> int option) \<Rightarrow> 'a Queue_scheme \<Rightarrow> 'a Queue_scheme \<Rightarrow> number" where
  "compareDates getTime a b =
     minus_number (timeValue getTime (date (dates (attributes a))))
                  (timeValue getTime (date (dates (attributes b))))"

definition sortByDate ::
  "(jsstring \<Rightarrow> int option) \<Rightarrow> 'a Queue_scheme list \<Rightarrow> 'a Queue_scheme list" where
  "sortByDate getTime facilitiesFound = sortWith (compareDates getTime) facilitiesFound"

text \<open>The comparator of the second sort. \<open>d || Infinity\<close> is \<open>Infinity\<close> for a missing
  distance and for every falsy one, so also for the distance \<open>0\<close> and for \<open>NaN\<close>.\<close>

definition orInfinity :: "number option \<Rightarrow> number" where
  "orInfinity d =
     (case d of
        None \<Rightarrow> Infinity
      | Some (Num x) \<Rightarrow> if x = 0 then Infinity else Num x
      | Some Infinity \<Rightarrow> Infinity
      | Some MinusInfinity \<Rightarrow> MinusInfinity
      | Some NaN \<Rightarrow> Infinity)"

definition compareDistances :: "RankedQueue \<Rightarrow> RankedQueue \<Rightarrow> number" where
  "compareDistances a b = minus_number (orInfinity (distance a)) (orInfinity (distance b))"

definition sortByDistance :: "RankedQueue list \<Rightarrow> RankedQueue list" where
  "sortByDistance facilitiesFound = sortWith compareDistances facilitiesFound"

text \<open>
  The key by which the second comparator orders the records, in the lexicographic order
  of pairs: the records whose distance counts as \<open>Infinity\<close> come after all others, a
  distance \<open>-Infinity\<close> before all others, and the others are ordered by their distance.
\<close>

definition distanceKey :: "RankedQueue \<Rightarrow> nat \<times> real" where
  "distanceKey r =
     (case orInfinity (distance r) of
        MinusInfinity \<Rightarrow> (0, 0)
      | Num d \<Rightarrow> (1, d)
      | Infinity \<Rightarrow> (2, 0)
      | NaN \<Rightarrow> (2, 0))"

text \<open>The block \<open>if (userLocation) { ... }\<close>: with a location every record gets its
  distance and the list is sorted by it; without one the records pass as they are.\<close>

definition annotateDistance ::
  "arithmetic \<Rightarrow> Location option \<Rightarrow> Queue list \<Rightarrow> RankedQueue list" where
  "annotateDistance A userLocation facilitiesFound =
     (case userLocation of
        None \<Rightarrow> map (withDistance None) facilitiesFound
      | Some loc \<Rightarrow>
          sortByDistance
            (map (\<lambda>facility.
                    withDistance
                      (Some (calculateDistance A (lat loc) (lon loc)
                               (latitude (attributes facility))
                               (longitude (attributes facility))))
                      facility)
                 facilitiesFound))"

text \<open>The summary sentence, built from the first record of the final list.\<close>

definition summaryText :: "(jsstring \<Rightarrow> jsstring) \<Rightarrow> RankedQueue list \<Rightarrow> jsstring" where
  "summaryText toLocaleDate facilitiesFound =
     (let earliestDate = formatDate toLocaleDate (date (dates (attributes (hd facilitiesFound))));
          nearestFacility = provider (attributes (hd facilitiesFound));
          nearestLocation = locality (attributes (hd facilitiesFound))
      in ascii ''Znaleziono '' @ showNat (length facilitiesFound) @
         ascii '' plac'' @ [0xF3] @ ascii ''wek. '' @
         ascii ''Najbli'' @ [0x17C] @ ascii ''szy termin: '' @ earliestDate @
         ascii '' w '' @ nearestFacility @ ascii '' ('' @ nearestLocation @ ascii '').'')"

text \<open>The sort by date followed by the distance block, as \<open>searchFacilities\<close> runs them
  on a non-empty response.\<close>

definition rankFacilities ::
  "arithmetic \<Rightarrow> (jsstring \<Rightarrow> int option) \<Rightarrow> Location option \<Rightarrow> Queue list
     \<Rightarrow> RankedQueue list" where
  "rankFacilities A getTime userLocation data =
     annotateDistance A userLocation (sortByDate getTime data)"

section \<open>The registry client\<close>

text \<open>
  What a JavaScript function throws: an \<open>Error\<close> made by \<open>new Error(message)\<close>, or an
  error of the engine (\<open>fetch\<close> rejects with a \<open>TypeError\<close> when the network fails,
  \<open>response.json()\<close> with a \<open>SyntaxError\<close> when the body is not JSON). The client
  declares no error class of its own.
\<close>

datatype JsError = Error jsstring | TypeError | SyntaxError

record NFZError =
  error_id :: jsstring
  error_result :: jsstring
  error_reason :: jsstring
  error_solution :: jsstring
  error_help :: jsstring
  error_code :: int

text \<open>
  The parsed body: an object with the property \<open>errors\<close> (\<open>NFZErrorResponse\<close>), an object
  without it (the payload), or a JSON value that is not an object, on which the operator
  \<open>in\<close> throws a \<open>TypeError\<close>.
\<close>

datatype 'a Body = ErrorResponse "NFZError list" | Payload 'a | NotAnObject

record 'a Response =
  ok :: bool
  status :: nat
  statusText :: jsstring
  json :: "JsError + 'a Body"

datatype 'a Fetched = Rejected JsError | Resolved "'a Response"

text \<open>
  \<open>NFZApiClient.request\<close>, from the outcome of \<open>fetch(url)\<close>. The result is the
  rejection (\<open>Inl\<close>) or the value (\<open>Inr\<close>) of the returned promise. The \<open>catch\<close> block logs
  the error and throws it again, so every error leaves the function as it was thrown.
  Reading \<open>data.errors[0]\<close> of an empty array gives \<open>undefined\<close>, and reading a property of
  that throws a \<open>TypeError\<close>.
\<close>

definition request :: "'a Fetched \<Rightarrow> JsError + 'a" where
  "request fetched =
     (case fetched of
        Rejected e \<Rightarrow> Inl e
      | Resolved response \<Rightarrow>
          if \<not> ok response
          then Inl (Error (ascii ''NFZ API request failed: '' @ showNat (status response)
                           @ [SP] @ statusText response))
          else (case json response of
                  Inl e \<Rightarrow> Inl e
                | Inr NotAnObject \<Rightarrow> Inl TypeError
                | Inr (ErrorResponse errors) \<Rightarrow>
                    (case errors of
                       [] \<Rightarrow> Inl TypeError
                     | e # rest \<Rightarrow>
                         Inl (Error (ascii ''NFZ API error: '' @ error_reason e
                                     @ ascii '' - '' @ error_solution e)))
                | Inr (Payload data) \<Rightarrow> Inr data))"

text \<open>\<open>getQueues\<close> passes the request through; the payload is the field \<open>data\<close> of the
  response.\<close>

definition getQueues :: "Queue list Fetched \<Rightarrow> JsError + Queue list" where
  "getQueues fetched = request fetched"

text \<open>
  The component state that \<open>searchFacilities\<close> writes, and the function as a state
  transformer; its first three arguments are the built-ins of the engine. It returns
  early without a province; a rejected request leaves the old results and sets the error
  message; an empty response sets the fixed summary.
\<close>

record SearchState =
  results :: "RankedQueue list"
  loading :: bool
  error :: "jsstring option"
  summary :: "jsstring option"

definition searchFacilities ::
  "arithmetic \<Rightarrow> (jsstring \<Rightarrow> int option) \<Rightarrow> (jsstring \<Rightarrow> jsstring) \<Rightarrow> jsstring
     \<Rightarrow> Location option \<Rightarrow> Queue list Fetched \<Rightarrow> SearchState \<Rightarrow> SearchState" where
  "searchFacilities A getTime toLocaleDate province userLocation fetched s =
     (if province = []
      then s\<lparr> error := Some (ascii ''Prosz'' @ [0x119] @ ascii '' wybra'' @ [0x107]
                               @ ascii '' wojew'' @ [0xF3] @ ascii ''dztwo'') \<rparr>
      else
        (let s1 = s\<lparr> loading := True, error := None, summary := None \<rparr> in
         case getQueues fetched of
           Inl err \<Rightarrow>
             s1\<lparr> error := Some (ascii ''Wyst'' @ [0x105] @ ascii ''pi'' @ [0x142] @ ascii '' b''
                      @ [0x142, 0x105] @ ascii ''d podczas wyszukiwania plac'' @ [0xF3]
                      @ ascii ''wek. Sprawd'' @ [0x17A] @ ascii '' poprawno'' @ [0x15B, 0x107]
                      @ ascii '' wprowadzonych danych.''),
                 loading := False \<rparr>
         | Inr data \<Rightarrow>
             if data = []
             then s1\<lparr> summary := Some (ascii ''Nie znaleziono plac'' @ [0xF3]
                          @ ascii ''wek dla podanych kryteri'' @ [0xF3] @ ascii ''w.''),
                      results := [], loading := False \<rparr>
             else
               (let facilitiesFound = rankFacilities A getTime userLocation data in
                s1\<lparr> results := facilitiesFound,
                    summary := (if facilitiesFound \<noteq> []
                                then Some (summaryText toLocaleDate facilitiesFound)
                                else None),
                    loading := False \<rparr>)))"

section \<open>The referral parser as the specification reads it, and example texts\<close>

text \<open>
  The specification says that the trigger word met first in text order decides. That
  reading is written down here, to compare it with \<open>findBenefit\<close>: the text is scanned
  from left to right, and at the first position where some trigger word starts, the piece
  between the surrounding spaces is taken.
\<close>

definition surrounding :: "jsstring \<Rightarrow> nat \<Rightarrow> jsstring \<Rightarrow> jsstring" where
  "surrounding t i k =
     rev (takeWhile (\<lambda>c. c \<noteq> SP) (rev (take i t))) @ k @
     takeWhile (\<lambda>c. c \<noteq> SP) (drop (i + length k) t)"

fun firstInTextOrder :: "jsstring list \<Rightarrow> jsstring \<Rightarrow> nat \<Rightarrow> (nat \<times> jsstring) option" where
  "firstInTextOrder ks [] i = None"
| "firstInTextOrder ks (c # cs) i =
     (case find (\<lambda>k. prefix k (c # cs)) ks of
        Some k \<Rightarrow> Some (i, k)
      | None \<Rightarrow> firstInTextOrder ks cs (i + 1))"

definition benefitInTextOrder :: "jsstring \<Rightarrow> jsstring" where
  "benefitInTextOrder t =
     (case firstInTextOrder benefitKeywords t 0 of
        None \<Rightarrow> []
      | Some (i, k) \<Rightarrow> surrounding t i k)"

text \<open>Texts on which the parser is evaluated.\<close>

definition twoTriggers :: jsstring where
  "twoTriggers = ascii ''Rehabilitacja kardiologiczna, poradnia ortopedyczna''"

definition atEndOfText :: jsstring where
  "atEndOfText = ascii ''Zabieg: rehabilitacja''"

definition referralText :: jsstring where
  "referralText = ascii ''Prosz'' @ [0x119] @ ascii '' o skierowanie do poradni kardiologicznej''"

section \<open>Example records and responses\<close>

text \<open>The date string of a record, \<open>a.attributes.dates.date\<close>.\<close>

abbreviation dateOf :: "'a Queue_scheme \<Rightarrow> jsstring" where
  "dateOf r \<equiv> date (dates (attributes r))"

text \<open>
  Three records of a response and one without a date. The user of the examples stands
  at latitude 0, longitude 0: \<open>atUser\<close> is at the same point and has the earliest date,
  \<open>nearLate\<close> is a quarter of the equator away and has the latest date, \<open>farEarly\<close> is
  half of the equator away and has a date before that of \<open>nearLate\<close>.
\<close>

definition farEarly :: Queue where
  "farEarly =
     \<lparr> id = ascii ''far'',
       attributes = \<lparr> provider = ascii ''Szpital A'', locality = ascii ''OPOLE'',
                      latitude = 0, longitude = 180,
                      dates = \<lparr> applicable = True, date = ascii ''2025-02-15'' \<rparr> \<rparr> \<rparr>"

definition nearLate :: Queue where
  "nearLate =
     \<lparr> id = ascii ''near'',
       attributes = \<lparr> provider = ascii ''Przychodnia B'', locality = ascii ''RADOM'',
                      latitude = 0, longitude = 90,
                      dates = \<lparr> applicable = True, date = ascii ''2025-03-01'' \<rparr> \<rparr> \<rparr>"

definition atUser :: Queue where
  "atUser =
     \<lparr> id = ascii ''here'',
       attributes = \<lparr> provider = ascii ''Poradnia C'', locality = ascii ''KUTNO'',
                      latitude = 0, longitude = 0,
                      dates = \<lparr> applicable = True, date = ascii ''2025-01-10'' \<rparr> \<rparr> \<rparr>"

definition noDate :: Queue where
  "noDate =
     \<lparr> id = ascii ''undated'',
       attributes = \<lparr> provider = ascii ''Szpital D'', locality = ascii ''PLOCK'',
                      latitude = 0, longitude = 90,
                      dates = \<lparr> applicable = False, date = [] \<rparr> \<rparr> \<rparr>"

definition origin :: Location where
  "origin = \<lparr> lat = 0, lon = 0 \<rparr>"

definition idle :: SearchState where
  "idle = \<lparr> results = [], loading = False, error = None, summary = None \<rparr>"

definition success :: "'a \<Rightarrow> 'a Fetched" where
  "success payload =
     Resolved \<lparr> ok = True, status = 200, statusText = ascii ''OK'', json = Inr (Payload payload) \<rparr>"

text \<open>An error of the registry with code 4 and the reason \<open>invalid province\<close>, and two
  responses that carry it: one with the status 200, one with the status 400.\<close>

definition invalidProvince :: NFZError where
  "invalidProvince =
     \<lparr> error_id = ascii ''e-1'', error_result = ascii ''error'',
       error_reason = ascii ''invalid province'',
       error_solution = ascii ''use a code from 01 to 16'',
       error_help = ascii ''https://api.nfz.gov.pl/app-itl-api/'', error_code = 4 \<rparr>"

definition envelope200 :: "Queue list Response" where
  "envelope200 =
     \<lparr> ok = True, status = 200, statusText = ascii ''OK'',
       json = Inr (ErrorResponse [invalidProvince]) \<rparr>"

definition envelope400 :: "Queue list Response" where
  "envelope400 =
     \<lparr> ok = False, status = 400, statusText = ascii ''Bad Request'',
       json = Inr (ErrorResponse [invalidProvince]) \<rparr>"

section \<open>Facts about the string functions\<close>

lemma includes_str_Nil: "includes_str s []"
  by (cases s) simp_all

lemma includes_str_length: "includes_str s k \<Longrightarrow> length k \<le> length s"
  by (induction s) (auto dest: prefix_length_le)

lemma includes_str_append: "includes_str (a @ k @ b) k"
proof (induction a)
  case Nil
  show ?case
  proof (cases "k @ b")
    case Nil
    then show ?thesis by simp
  next
    case (Cons c cs)
    have "prefix k (k @ b)" by simp
    then have "prefix k (c # cs)" unfolding Cons .
    then show ?thesis using Cons by simp
  qed
next
  case (Cons x a)
  then show ?case by simp
qed

lemma prefix_shorter:
  assumes "prefix k (u @ v)" and "length k \<le> length u"
  shows "prefix k u"
  using assms by (metis prefix_length_prefix prefixI)

lemma includes_str_first:
  assumes "includes_str s k" and "k \<noteq> []"
  shows "\<exists>a b. s = a @ k @ b \<and> \<not> includes_str (a @ butlast k) k"
  using assms
proof (induction s)
  case Nil
  then show ?case by simp
next
  case (Cons c cs)
  show ?case
  proof (cases "prefix k (c # cs)")
    case True
    then obtain b where b: "c # cs = k @ b" by (auto simp: prefix_def)
    have "length (butlast k) < length k"
      using Cons.prems(2) by (cases k) simp_all
    then have "\<not> includes_str (butlast k) k"
      using includes_str_length [of "butlast k" k] by linarith
    with b have "c # cs = [] @ k @ b \<and> \<not> includes_str ([] @ butlast k) k" by simp
    then show ?thesis by blast
  next
    case False
    with Cons.prems have "includes_str cs k" by simp
    from Cons.IH [OF this Cons.prems(2)] obtain a b
      where ab: "cs = a @ k @ b" "\<not> includes_str (a @ butlast k) k" by blast
    have "\<not> prefix k (c # a @ butlast k)"
    proof
      assume p: "prefix k (c # a @ butlast k)"
      have "prefix (c # a @ butlast k) (c # cs)"
        using ab(1) Cons.prems(2) by (metis Cons_prefix_Cons append_butlast_last_id append.assoc prefixI same_prefix_prefix)
      with p False show False by (meson prefix_order.trans)
    qed
    with ab have "c # cs = (c # a) @ k @ b \<and> \<not> includes_str ((c # a) @ butlast k) k" by simp
    then show ?thesis by blast
  qed
qed

lemma searchFrom_first:
  assumes "\<not> includes_str (a @ butlast k) k"
  shows "searchFrom k (a @ k @ b) i = int (i + length a)"
  using assms
proof (induction a arbitrary: i)
  case Nil
  have "k \<noteq> []" using Nil includes_str_Nil by auto
  then obtain c cs where "k @ b = c # cs" by (cases k) auto
  then show ?case by (metis add.right_neutral append_Nil list.size(3) prefixI searchFrom.simps(2))
next
  case (Cons x a)
  have kne: "k \<noteq> []" using Cons.prems includes_str_Nil by auto
  from Cons.prems have np: "\<not> prefix k (x # a @ butlast k)" and ni: "\<not> includes_str (a @ butlast k) k"
    by simp_all
  have "\<not> prefix k (x # a @ k @ b)"
  proof
    assume p: "prefix k (x # a @ k @ b)"
    have e: "x # a @ k @ b = (x # a @ butlast k) @ ([last k] @ b)"
      using kne by simp
    have "length k \<le> length (x # a @ butlast k)" by simp
    with p e have "prefix k (x # a @ butlast k)" by (metis prefix_shorter)
    with np show False by simp
  qed
  then show ?case using Cons.IH [OF ni, of "i + 1"] by simp
qed

lemma prefix_SP [simp]: "prefix [SP] (c # cs) \<longleftrightarrow> c = SP"
  by auto

lemma searchFrom_SP:
  "searchFrom [SP] b i =
     (if SP \<in> set b then int (i + length (takeWhile (\<lambda>c. c \<noteq> SP) b)) else -1)"
  by (induction b arbitrary: i) auto

lemma searchLast_beyond: "limit < i \<Longrightarrow> searchLast [SP] cs i limit best = best"
  by (induction cs arbitrary: i) auto

lemma searchLast_SP:
  assumes "r = [] \<or> hd r \<noteq> SP"
  shows "searchLast [SP] (a @ r) i (i + length a) best =
     (if SP \<in> set a
      then int (i + length a) - 1 - int (length (takeWhile (\<lambda>c. c \<noteq> SP) (rev a)))
      else best)"
  using assms
proof (induction a arbitrary: i best)
  case Nil
  then show ?case by (cases r) (auto simp: searchLast_beyond)
next
  case (Cons x a)
  let ?best = "if x = SP then int i else best"
  have step: "searchLast [SP] ((x # a) @ r) i (i + length (x # a)) best =
      searchLast [SP] (a @ r) (i + 1) ((i + 1) + length a) ?best"
    by simp
  show ?case
  proof (cases "SP \<in> set a")
    case True
    then have "takeWhile (\<lambda>c. c \<noteq> SP) (rev a @ [x]) = takeWhile (\<lambda>c. c \<noteq> SP) (rev a)"
      by (intro takeWhile_append1 [of SP]) auto
    with True show ?thesis unfolding step Cons.IH [OF Cons.prems] by simp
  next
    case False
    then have tw: "takeWhile (\<lambda>c. c \<noteq> SP) (rev a @ [x]) = rev a @ takeWhile (\<lambda>c. c \<noteq> SP) [x]"
      by (intro takeWhile_append2) auto
    show ?thesis
    proof (cases "x = SP")
      case True
      with tw have "length (takeWhile (\<lambda>c. c \<noteq> SP) (rev (x # a))) = length a" by simp
      with True False show ?thesis unfolding step Cons.IH [OF Cons.prems] by simp
    next
      case xne: False
      with False show ?thesis unfolding step Cons.IH [OF Cons.prems] by simp
    qed
  qed
qed

lemma substring_middle:
  "substring (p @ m @ q) (int (length p)) (Some (int (length p + length m))) = m"
  by (simp add: substring_def Let_def)

lemma substring_rest:
  "substring (p @ m) (int (length p)) None = m"
  by (simp add: substring_def Let_def)


lemma phraseAround_token:
  assumes first: "\<not> includes_str (a @ butlast k) k" and nosp: "SP \<notin> set k"
  shows "phraseAround (a @ k @ b) k =
           rev (takeWhile (\<lambda>c. c \<noteq> SP) (rev a)) @ k @ takeWhile (\<lambda>c. c \<noteq> SP) b"
proof -
  let ?t = "a @ k @ b"
  let ?l = "takeWhile (\<lambda>c. c \<noteq> SP) (rev a)"
  let ?r = "takeWhile (\<lambda>c. c \<noteq> SP) b"
  let ?p = "rev (dropWhile (\<lambda>c. c \<noteq> SP) (rev a))"
  let ?q = "dropWhile (\<lambda>c. c \<noteq> SP) b"
  have kne: "k \<noteq> []" using first includes_str_Nil by auto
  have index: "indexOf ?t k 0 = int (length a)"
    using searchFrom_first [OF first, of b 0] by (simp add: indexOf_def)
  have hd: "k @ b = [] \<or> hd (k @ b) \<noteq> SP"
    using kne nosp by (cases k) auto
  have le: "length ?l \<le> length a"
    using length_takeWhile_le [of _ "rev a"] by simp
  have all: "SP \<notin> set a \<Longrightarrow> length ?l = length a"
  proof -
    assume "SP \<notin> set a"
    then have "?l = rev a" by (auto simp: takeWhile_eq_all_conv)
    then show "length ?l = length a" by (metis length_rev)
  qed
  have last: "lastIndexOf ?t [SP] (int (length a)) =
      (if SP \<in> set a then int (length a) - 1 - int (length ?l) else -1)"
    using searchLast_SP [OF hd, of a 0 "-1"] by (simp add: lastIndexOf_def)
  have start: "lastIndexOf ?t [SP] (int (length a)) + 1 = int (length a - length ?l)"
  proof (cases "SP \<in> set a")
    case True
    then show ?thesis using le unfolding last by simp
  next
    case False
    then show ?thesis using all unfolding last by simp
  qed
  have "drop (length a + length k) ?t = b" by simp
  then have "indexOf ?t [SP] (int (length a) + int (length k)) =
      searchFrom [SP] b (length a + length k)"
    by (simp add: indexOf_def nat_add_distrib)
  then have "end": "indexOf ?t [SP] (int (length a) + int (length k)) =
      (if SP \<in> set b then int (length a + length k + length ?r) else -1)"
    by (simp add: searchFrom_SP)
  have a: "a = ?p @ rev ?l"
    by (metis rev_append rev_rev_ident takeWhile_dropWhile_id)
  then have lp: "length a - length ?l = length ?p"
    by (metis add_diff_cancel_right' length_append length_rev)
  have t: "?t = ?p @ (rev ?l @ k @ ?r) @ ?q"
    using a by (metis append.assoc takeWhile_dropWhile_id)
  have len: "length a + length k + length ?r = length ?p + length (rev ?l @ k @ ?r)"
    using arg_cong [OF a, of length] by simp
  show ?thesis
  proof (cases "SP \<in> set b")
    case True
    have "0 < length k" using kne by simp
    then have pos: "0 < int (length a + length k + length ?r)"
      by linarith
    have "phraseAround ?t k =
        substring ?t (int (length a - length ?l)) (Some (int (length a + length k + length ?r)))"
      using True pos by (simp add: phraseAround_def Let_def index start "end")
    also have "\<dots> =
        substring ?t (int (length ?p)) (Some (int (length ?p + length (rev ?l @ k @ ?r))))"
      unfolding lp len ..
    also have "\<dots> = rev ?l @ k @ ?r"
      by (subst t) (rule substring_middle)
    finally show ?thesis .
  next
    case False
    then have q: "?q = []" by auto
    have "phraseAround ?t k = substring ?t (int (length ?p)) None"
      using False by (simp add: phraseAround_def Let_def index start "end" lp)
    also have "\<dots> = rev ?l @ k @ ?r"
      using substring_rest [of ?p "rev ?l @ k @ ?r"] t q by simp
    finally show ?thesis .
  qed
qed

lemma findBenefit_first:
  assumes "\<forall>k' \<in> set ks1. \<not> includes_str t k'" and "includes_str t k"
  shows "findBenefit t (ks1 @ k # ks2) = phraseAround t k"
  using assms by (induction ks1) simp_all

lemma findBenefit_none:
  assumes "\<forall>k' \<in> set ks. \<not> includes_str t k'"
  shows "findBenefit t ks = []"
  using assms by (induction ks) simp_all

lemma findBenefit_cases:
  "findBenefit t ks = [] \<or> (\<exists>k \<in> set ks. includes_str t k \<and> findBenefit t ks = phraseAround t k)"
  by (induction ks) auto

lemma split_space_not_Nil [simp]: "split_space s \<noteq> []"
  by (induction s) (auto split: list.splits)

lemma split_space_append_SP: "split_space (x @ SP # y) = split_space x @ split_space y"
  by (induction x) (auto split: list.splits)

lemma split_space_token: "SP \<notin> set w \<Longrightarrow> split_space w = [w]"
  by (induction w) auto

lemma token_in_split_space:
  assumes "SP \<notin> set tok" and "p = [] \<or> last p = SP" and "q = [] \<or> hd q = SP"
  shows "tok \<in> set (split_space (p @ tok @ q))"
proof -
  have right: "tok \<in> set (split_space (tok @ q))"
  proof (cases q)
    case Nil
    then show ?thesis using assms(1) by (simp add: split_space_token)
  next
    case (Cons c q')
    with assms(3) have "q = SP # q'" by simp
    then show ?thesis using assms(1) by (simp add: split_space_append_SP split_space_token)
  qed
  show ?thesis
  proof (cases "p = []")
    case True
    then show ?thesis using right by simp
  next
    case False
    with assms(2) have "p = butlast p @ [SP]" by (metis append_butlast_last_id)
    then have "p @ tok @ q = butlast p @ SP # (tok @ q)" by (metis append.assoc append_Cons append_Nil)
    then have "split_space (p @ tok @ q) = split_space (butlast p) @ split_space (tok @ q)"
      by (simp only: split_space_append_SP)
    then show ?thesis using right by simp
  qed
qed

text \<open>The keywords of every text: no stop word and no word shorter than 3 characters.\<close>

lemma keywordList_filtered:
  "\<forall>word \<in> set (keywordList (parseReferral lc text)). 3 \<le> length word \<and> word \<notin> set stopWords"
  by (auto simp: parseReferral_def Let_def)

text \<open>
  The second trigger word of the source has the code unit U+00C5, a capital letter, which
  lower-casing turns into U+00E5. No normalized text contains it, so with the engine's
  lower-casing on the Latin ranges that trigger word is never found.
\<close>

lemma lowerUnit_no_C5: "0xC5 \<notin> set (lowerUnit c)"
  by (auto simp: lowerUnit_def)

lemma toLowerCase_no_C5: "0xC5 \<notin> set (toLowerCase s)"
  by (induction s) (simp_all add: toLowerCase_def lowerUnit_no_C5)

lemma set_replacePunctuation: "set (replacePunctuation s) \<subseteq> insert SP (set s)"
  by (auto simp: replacePunctuation_def)

lemma set_collapseWhiteSpace: "set (collapseWhiteSpace s) \<subseteq> insert SP (set s)"
proof (induction s rule: collapseWhiteSpace.induct)
  case 1
  show ?case by simp
next
  case (2 c cs)
  show ?case
  proof (cases "isWhiteSpace c \<and> takeWhile isWhiteSpace cs \<noteq> []")
    case True
    with 2 have "set (collapseWhiteSpace (dropWhile isWhiteSpace cs))
        \<subseteq> insert SP (set (dropWhile isWhiteSpace cs))" by simp
    moreover have "set (dropWhile isWhiteSpace cs) \<subseteq> set cs"
      by (auto dest: set_dropWhileD)
    ultimately show ?thesis using True by auto
  next
    case False
    with 2 have "set (collapseWhiteSpace cs) \<subseteq> insert SP (set cs)" by simp
    then show ?thesis using False by auto
  qed
qed

lemma includes_str_set: "includes_str s k \<Longrightarrow> set k \<subseteq> set s"
proof (induction s)
  case Nil
  then show ?case by simp
next
  case (Cons c cs)
  show ?case
  proof (cases "prefix k (c # cs)")
    case True
    then show ?thesis by (rule set_mono_prefix)
  next
    case False
    with Cons have "set k \<subseteq> set cs" by simp
    then show ?thesis by auto
  qed
qed

lemma second_trigger_never_found:
  "\<not> includes_str (normalizeText toLowerCase text) (benefitKeywords ! 1)"
proof
  assume "includes_str (normalizeText toLowerCase text) (benefitKeywords ! 1)"
  then have "set (benefitKeywords ! 1) \<subseteq> set (normalizeText toLowerCase text)"
    by (rule includes_str_set)
  moreover have "0xC5 \<in> set (benefitKeywords ! 1)"
    by (simp add: benefitKeywords_def)
  ultimately have "0xC5 \<in> set (normalizeText toLowerCase text)" by blast
  then have "0xC5 \<in> insert SP (insert SP (set (toLowerCase text)))"
    unfolding normalizeText_def
    using set_collapseWhiteSpace set_replacePunctuation by blast
  with toLowerCase_no_C5 [of "text"] show False by (simp add: SP_def)
qed

section \<open>Facts about rounding to doubles\<close>

text \<open>
  How \<open>roundDouble\<close> is evaluated: once \<open>x\<close> is placed between two powers of 2, the
  binade is known, and the rounding is that of \<open>x * 2 ^ k\<close> to an integer.
\<close>

lemma binade_eq:
  assumes "2 ^ 52 \<le> \<bar>x\<bar> * 2 ^ k" "\<bar>x\<bar> * 2 ^ k < 2 ^ 53"
  shows "binade x = 52 - int k"
proof -
  have k: "(0::real) < 2 ^ k" by simp
  have pos: "0 < \<bar>x\<bar>"
  proof (rule ccontr)
    assume "\<not> 0 < \<bar>x\<bar>"
    then have "\<bar>x\<bar> = 0" by simp
    with assms(1) show False by simp
  qed
  have p: "(2::real) powr of_int (52 - int k) = 2 ^ 52 / 2 ^ k"
    by (simp add: powr_diff powr_realpow)
  have q: "(2::real) powr (of_int (52 - int k) + 1) = 2 ^ 53 / 2 ^ k"
    by (simp add: powr_diff powr_add powr_realpow)
  have "2 ^ 52 / 2 ^ k \<le> \<bar>x\<bar>"
    using assms(1) k by (simp only: pos_divide_le_eq)
  moreover have "\<bar>x\<bar> < 2 ^ 53 / 2 ^ k"
    using assms(2) k by (simp only: pos_less_divide_eq)
  ultimately have "2 powr of_int (52 - int k) \<le> \<bar>x\<bar> \<and> \<bar>x\<bar> < 2 powr (of_int (52 - int k) + 1)"
    unfolding p q by simp
  then have "\<lfloor>log 2 \<bar>x\<bar>\<rfloor> = 52 - int k"
    using pos by (subst floor_log_eq_powr_iff) simp_all
  then show ?thesis unfolding binade_def .
qed

lemma roundDouble_scaled:
  assumes "2 ^ 52 \<le> \<bar>x\<bar> * 2 ^ k" "\<bar>x\<bar> * 2 ^ k < 2 ^ 53"
  shows "roundDouble x = of_int (roundHalfEven (x * 2 ^ k)) / 2 ^ k"
proof -
  have b: "binade x = 52 - int k" using assms by (rule binade_eq)
  have u: "ulp x = 1 / 2 ^ k"
    unfolding ulp_def b by (simp add: powr_minus powr_realpow field_simps)
  have "x \<noteq> 0" using assms(1) by auto
  then show ?thesis unfolding roundDouble_def u by simp
qed

lemma roundHalfEven_near:
  assumes "\<bar>y - of_int n\<bar> < 1 / 2"
  shows "roundHalfEven y = n"
proof (cases "of_int n \<le> y")
  case True
  then have "\<lfloor>y\<rfloor> = n" using assms by (intro floor_unique) linarith+
  then show ?thesis using assms True by (simp add: roundHalfEven_def Let_def)
next
  case False
  then have "\<lfloor>y\<rfloor> = n - 1" using assms by (intro floor_unique) (simp, linarith)+
  then show ?thesis using assms False by (simp add: roundHalfEven_def Let_def)
qed

lemma roundHalfEven_minus: "roundHalfEven (- y) = - roundHalfEven y"
proof (cases "y = of_int \<lfloor>y\<rfloor>")
  case True
  then obtain n where "y = of_int n" ..
  then show ?thesis by (simp add: roundHalfEven_def Let_def)
next
  case False
  then have f: "\<lfloor>- y\<rfloor> = - \<lfloor>y\<rfloor> - 1"
    by (simp add: floor_minus ceiling_altdef)
  show ?thesis
    unfolding roundHalfEven_def Let_def f by (auto simp: algebra_simps)
qed

lemma roundDouble_minus: "roundDouble (- x) = - roundDouble x"
  by (simp add: roundDouble_def ulp_def binade_def roundHalfEven_minus)

lemma roundDouble_near:
  assumes "2 ^ 52 < n" "n < 2 ^ 53" "\<bar>v * 2 ^ k - of_int n\<bar> < 1 / 2"
  shows "roundDouble v = of_int n / 2 ^ k"
proof -
  have "2 ^ 52 + 1 \<le> n" using assms(1) by linarith
  then have "(of_int (2 ^ 52 + 1) :: real) \<le> of_int n" by (simp only: of_int_le_iff)
  then have a: "(2::real) ^ 52 + 1 \<le> of_int n" by simp
  have "n + 1 \<le> 2 ^ 53" using assms(2) by linarith
  then have "(of_int (n + 1) :: real) \<le> of_int (2 ^ 53)" by (simp only: of_int_le_iff)
  then have b: "of_int n + 1 \<le> (2::real) ^ 53" by simp
  have p: "(0::real) \<le> 2 ^ 52" by simp
  have lower: "2 ^ 52 \<le> v * 2 ^ k" using a assms(3) by linarith
  have upper: "v * 2 ^ k < 2 ^ 53" using b assms(3) by linarith
  have "0 < v * 2 ^ k" using lower by simp
  then have "0 < v" by (simp add: zero_less_mult_iff)
  then have abs: "\<bar>v\<bar> = v" by simp
  have "roundDouble v = of_int (roundHalfEven (v * 2 ^ k)) / 2 ^ k"
    by (rule roundDouble_scaled) (simp_all only: abs lower upper)
  also have "roundHalfEven (v * 2 ^ k) = n" using assms(3) by (rule roundHalfEven_near)
  finally show ?thesis .
qed

text \<open>
  A value of the sine or the cosine is enclosed by a Taylor polynomial, evaluated on
  rational numbers, and the bound of its remainder; an enclosure that lies between two
  neighbouring midpoints of doubles fixes the rounded value.
\<close>

lemma cos_taylor_bound: "\<bar>cos x - (\<Sum>m<n. cos_coeff m * x ^ m)\<bar> \<le> \<bar>x\<bar> ^ n / fact n"
proof -
  obtain t where t: "cos x = (\<Sum>m<n. cos_coeff m * x ^ m) + (cos (t + 1 / 2 * real n * pi) / fact n) * x ^ n"
    using Maclaurin_cos_expansion [of x n] by blast
  have "\<bar>cos x - (\<Sum>m<n. cos_coeff m * x ^ m)\<bar> = \<bar>cos (t + 1 / 2 * real n * pi)\<bar> * (\<bar>x\<bar> ^ n / fact n)"
    unfolding t by (simp add: abs_mult power_abs)
  also have "\<dots> \<le> 1 * (\<bar>x\<bar> ^ n / fact n)"
    by (rule mult_right_mono) simp_all
  finally show ?thesis by simp
qed

lemma sin_taylor_bound: "\<bar>sin x - (\<Sum>m<n. sin_coeff m * x ^ m)\<bar> \<le> \<bar>x\<bar> ^ n / fact n"
  using Maclaurin_sin_bound [of x n] by (simp add: field_simps)

lemma sum_numeral: "(\<Sum>m<numeral k. f m) = (\<Sum>m<pred_numeral k. f m) + f (pred_numeral k)"
  for f :: "nat \<Rightarrow> real"
  by (simp add: numeral_eq_Suc)

lemma sum_one: "(\<Sum>m<1. f m) = f 0" for f :: "nat \<Rightarrow> real"
  by simp

lemma sin_polynomial: "(\<Sum>m<13. sin_coeff m * x ^ m) =
   x - x ^ 3 / 6 + x ^ 5 / 120 - x ^ 7 / 5040 + x ^ 9 / 362880 - x ^ 11 / 39916800" for x :: real
  by (simp add: sum_numeral sum_one sin_coeff_def fact_numeral)

lemma cos_polynomial_14: "(\<Sum>m<14. cos_coeff m * x ^ m) =
   1 - x ^ 2 / 2 + x ^ 4 / 24 - x ^ 6 / 720 + x ^ 8 / 40320 - x ^ 10 / 3628800 + x ^ 12 / 479001600" for x :: real
  by (simp add: sum_numeral sum_one cos_coeff_def fact_numeral)

lemma cos_polynomial_24: "(\<Sum>m<24. cos_coeff m * x ^ m) =
   1 - x ^ 2 / 2 + x ^ 4 / 24 - x ^ 6 / 720 + x ^ 8 / 40320 - x ^ 10 / 3628800 + x ^ 12 / 479001600 - x ^ 14 / 87178291200 + x ^ 16 / 20922789888000 - x ^ 18 / 6402373705728000 + x ^ 20 / 2432902008176640000 - x ^ 22 / 1124000727777607680000" for x :: real
  by (simp add: sum_numeral sum_one cos_coeff_def fact_numeral)

text \<open>
  The angle of 8 degrees in doubles is \<open>5030569068109113 / 2 ^ 55\<close>. Its sine and its
  cosine, rounded.
\<close>

lemma sin_8_degrees: "roundDouble (sin (5030569068109113 / 2 ^ 55)) = 5014239404989977 / 2 ^ 55"
proof -
  let ?x = "5030569068109113 / 2 ^ 55 :: real"
  let ?P = "?x - ?x ^ 3 / 6 + ?x ^ 5 / 120 - ?x ^ 7 / 5040 + ?x ^ 9 / 362880 - ?x ^ 11 / 39916800"
  have "\<bar>sin ?x - (\<Sum>m<13. sin_coeff m * ?x ^ m)\<bar> \<le> \<bar>?x\<bar> ^ 13 / fact 13"
    by (rule sin_taylor_bound)
  then have t: "\<bar>sin ?x - ?P\<bar> \<le> \<bar>?x\<bar> ^ 13 / fact 13"
    unfolding sin_polynomial .
  have r: "\<bar>?x\<bar> ^ 13 / fact 13 \<le> 1 / 2 ^ 65"
    by (simp add: fact_numeral power_divide)
  have lo: "(5014239404989977 + 1 / 8) / 2 ^ 55 \<le> ?P"
    by (simp add: power_divide)
  have hi: "?P \<le> (5014239404989977 + 1 / 4) / 2 ^ 55"
    by (simp add: power_divide)
  have "(5014239404989977 + 1 / 8) / 2 ^ 55 - 1 / 2 ^ 65 \<le> sin ?x"
    and "sin ?x \<le> (5014239404989977 + 1 / 4) / 2 ^ 55 + 1 / 2 ^ 65"
    using t r lo hi by linarith+
  then have "\<bar>sin ?x * 2 ^ 55 - of_int 5014239404989977\<bar> < 1 / 2"
    by (simp add: field_simps abs_less_iff)
  then have "roundDouble (sin ?x) = of_int 5014239404989977 / 2 ^ 55"
    by (rule roundDouble_near [rotated 2]) simp_all
  then show ?thesis by simp
qed

lemma cos_8_degrees: "roundDouble (cos (5030569068109113 / 2 ^ 55)) = 4459770905381437 / 2 ^ 52"
proof -
  let ?x = "5030569068109113 / 2 ^ 55 :: real"
  let ?P = "1 - ?x ^ 2 / 2 + ?x ^ 4 / 24 - ?x ^ 6 / 720 + ?x ^ 8 / 40320 - ?x ^ 10 / 3628800 + ?x ^ 12 / 479001600"
  have "\<bar>cos ?x - (\<Sum>m<14. cos_coeff m * ?x ^ m)\<bar> \<le> \<bar>?x\<bar> ^ 14 / fact 14"
    by (rule cos_taylor_bound)
  then have t: "\<bar>cos ?x - ?P\<bar> \<le> \<bar>?x\<bar> ^ 14 / fact 14"
    unfolding cos_polynomial_14 .
  have r: "\<bar>?x\<bar> ^ 14 / fact 14 \<le> 1 / 2 ^ 65"
    by (simp add: fact_numeral power_divide)
  have lo: "(8919541810762874 - 7 / 16) / 2 ^ 53 \<le> ?P"
    by (simp add: power_divide)
  have hi: "?P \<le> (8919541810762874 - 3 / 8) / 2 ^ 53"
    by (simp add: power_divide)
  have "(8919541810762874 - 7 / 16) / 2 ^ 53 - 1 / 2 ^ 65 \<le> cos ?x"
    and "cos ?x \<le> (8919541810762874 - 3 / 8) / 2 ^ 53 + 1 / 2 ^ 65"
    using t r lo hi by linarith+
  then have "\<bar>cos ?x * 2 ^ 53 - of_int 8919541810762874\<bar> < 1 / 2"
    by (simp add: field_simps abs_less_iff)
  then have "roundDouble (cos ?x) = of_int 8919541810762874 / 2 ^ 53"
    by (rule roundDouble_near [rotated 2]) simp_all
  then show ?thesis by simp
qed

text \<open>
  \<open>pi / 2\<close> lies between two rational numbers \<open>2 ^ - 52\<close> apart: the cosine is positive
  at the lower one and negative at the upper one. So \<open>Math.PI\<close>, the double nearest to
  \<open>pi\<close>, is \<open>884279719003555 / 2 ^ 48\<close>, and the sine of half of it rounds to 1.
\<close>

lemma cos_below: "1 / 2 ^ 54 \<le> cos (14148475504056879 / 2 ^ 53 :: real)"
proof -
  let ?x = "14148475504056879 / 2 ^ 53 :: real"
  let ?P = "1 - ?x ^ 2 / 2 + ?x ^ 4 / 24 - ?x ^ 6 / 720 + ?x ^ 8 / 40320 - ?x ^ 10 / 3628800 + ?x ^ 12 / 479001600 - ?x ^ 14 / 87178291200 + ?x ^ 16 / 20922789888000 - ?x ^ 18 / 6402373705728000 + ?x ^ 20 / 2432902008176640000 - ?x ^ 22 / 1124000727777607680000"
  have "\<bar>cos ?x - (\<Sum>m<24. cos_coeff m * ?x ^ m)\<bar> \<le> \<bar>?x\<bar> ^ 24 / fact 24"
    by (rule cos_taylor_bound)
  then have t: "\<bar>cos ?x - ?P\<bar> \<le> \<bar>?x\<bar> ^ 24 / fact 24"
    unfolding cos_polynomial_24 .
  have r: "\<bar>?x\<bar> ^ 24 / fact 24 \<le> 1 / 2 ^ 63"
    by (simp add: fact_numeral power_divide)
  have lo: "1 / 2 ^ 53 \<le> ?P"
    by (simp add: power_divide)
  have "1 / 2 ^ 53 - 1 / 2 ^ 63 \<le> cos ?x"
    using t r lo by linarith
  then show ?thesis by simp
qed

lemma cos_above: "cos (14148475504056881 / 2 ^ 53 :: real) \<le> - (1 / 2 ^ 56)"
proof -
  let ?x = "14148475504056881 / 2 ^ 53 :: real"
  let ?P = "1 - ?x ^ 2 / 2 + ?x ^ 4 / 24 - ?x ^ 6 / 720 + ?x ^ 8 / 40320 - ?x ^ 10 / 3628800 + ?x ^ 12 / 479001600 - ?x ^ 14 / 87178291200 + ?x ^ 16 / 20922789888000 - ?x ^ 18 / 6402373705728000 + ?x ^ 20 / 2432902008176640000 - ?x ^ 22 / 1124000727777607680000"
  have "\<bar>cos ?x - (\<Sum>m<24. cos_coeff m * ?x ^ m)\<bar> \<le> \<bar>?x\<bar> ^ 24 / fact 24"
    by (rule cos_taylor_bound)
  then have t: "\<bar>cos ?x - ?P\<bar> \<le> \<bar>?x\<bar> ^ 24 / fact 24"
    unfolding cos_polynomial_24 .
  have r: "\<bar>?x\<bar> ^ 24 / fact 24 \<le> 1 / 2 ^ 63"
    by (simp add: fact_numeral power_divide)
  have hi: "?P \<le> - (1 / 2 ^ 55)"
    by (simp add: power_divide)
  have "cos ?x \<le> - (1 / 2 ^ 55) + 1 / 2 ^ 63"
    using t r hi by linarith
  then show ?thesis by simp
qed

lemma pi_half_bounds:
  "14148475504056879 / 2 ^ 53 < pi / 2" "pi / 2 < 14148475504056881 / 2 ^ 53"
proof -
  let ?lo = "14148475504056879 / 2 ^ 53 :: real" and ?hi = "14148475504056881 / 2 ^ 53 :: real"
  show "?lo < pi / 2"
  proof (rule ccontr)
    assume "\<not> ?lo < pi / 2"
    then have "pi / 2 \<le> ?lo" by simp
    moreover have "?lo \<le> pi" using pi_ge_two by simp
    ultimately have "cos ?lo \<le> cos (pi / 2)"
      by (intro cos_monotone_0_pi_le) simp_all
    then show False using cos_below by simp
  qed
  show "pi / 2 < ?hi"
  proof (rule ccontr)
    assume "\<not> pi / 2 < ?hi"
    then have "?hi \<le> pi / 2" by simp
    then have "0 \<le> cos ?hi" by (intro cos_ge_zero) simp_all
    then show False using cos_above by simp
  qed
qed

lemma roundDouble_pi: "roundDouble pi = 884279719003555 / 2 ^ 48"
proof -
  have "\<bar>pi * 2 ^ 51 - of_int 7074237752028440\<bar> < 1 / 2"
    using pi_half_bounds by (simp only: abs_less_iff) (simp add: field_simps)
  then have "roundDouble pi = of_int 7074237752028440 / 2 ^ 51"
    by (rule roundDouble_near [rotated 2]) simp_all
  then show ?thesis by simp
qed

lemma cos_lower: "1 - x\<^sup>2 / 2 \<le> cos x" for x :: real
proof -
  have "\<bar>cos x - (\<Sum>m<2. cos_coeff m * x ^ m)\<bar> \<le> \<bar>x\<bar> ^ 2 / fact 2"
    by (rule cos_taylor_bound)
  then show ?thesis
    by (simp add: sum_numeral sum_one cos_coeff_def fact_numeral abs_le_iff)
qed

lemma roundDouble_one:
  assumes "1 - 1 / 2 ^ 55 < v" "v \<le> 1"
  shows "roundDouble v = 1"
proof (cases "v = 1")
  case True
  have "roundDouble 1 = of_int (roundHalfEven (1 * 2 ^ 52)) / 2 ^ 52"
    by (rule roundDouble_scaled) simp_all
  also have "roundHalfEven (1 * 2 ^ 52) = 2 ^ 52"
    by (rule roundHalfEven_near) simp
  finally show ?thesis using True by simp
next
  case False
  then have less: "v < 1" using assms(2) by simp
  have pos: "0 < v" using assms(1) by (simp add: less_le_trans [rotated])
  have "roundDouble v = of_int (roundHalfEven (v * 2 ^ 53)) / 2 ^ 53"
  proof (rule roundDouble_scaled)
    show "2 ^ 52 \<le> \<bar>v\<bar> * 2 ^ 53" using assms(1) pos by simp
    show "\<bar>v\<bar> * 2 ^ 53 < 2 ^ 53" using less pos by simp
  qed
  also have "roundHalfEven (v * 2 ^ 53) = 2 ^ 53"
  proof (rule roundHalfEven_near)
    show "\<bar>v * 2 ^ 53 - of_int (2 ^ 53)\<bar> < 1 / 2"
      using assms by (simp add: abs_less_iff field_simps)
  qed
  finally show ?thesis by simp
qed

lemma sin_half_pi_double: "roundDouble (sin (884279719003555 / 2 ^ 49)) = 1"
proof -
  let ?y = "884279719003555 / 2 ^ 49 :: real"
  have d: "\<bar>pi / 2 - ?y\<bar> \<le> 1 / 2 ^ 53"
    using pi_half_bounds by (simp only: abs_le_iff) (simp add: field_simps)
  have "\<bar>pi / 2 - ?y\<bar> \<le> \<bar>1 / 2 ^ 53 :: real\<bar>"
    using d by simp
  then have "(pi / 2 - ?y)\<^sup>2 \<le> (1 / 2 ^ 53)\<^sup>2"
    by (simp only: abs_le_square_iff)
  then have "1 - (1 / 2 ^ 53)\<^sup>2 / 2 \<le> 1 - (pi / 2 - ?y)\<^sup>2 / 2" by simp
  also have "\<dots> \<le> cos (pi / 2 - ?y)" by (rule cos_lower)
  also have "\<dots> = sin ?y" by (simp add: cos_sin_eq)
  finally have "1 - 1 / 2 ^ 55 < sin ?y" by (simp add: power_divide)
  then show ?thesis by (rule roundDouble_one) simp
qed

lemma roundDouble_eval:
  assumes "2 ^ 52 \<le> \<bar>x\<bar> * 2 ^ k" "\<bar>x\<bar> * 2 ^ k < 2 ^ 53"
    and "of_int (roundHalfEven (x * 2 ^ k)) / 2 ^ k = r"
  shows "roundDouble x = r"
  using roundDouble_scaled [OF assms(1,2)] assms(3) by simp

text \<open>
  The distance from latitude 8, longitude 0 to latitude -8, longitude 180 in doubles,
  step by step. The squares of the sine and of the cosine of 8 degrees are both rounded
  up, their sum is rounded to \<open>1 + 2 ^ - 52\<close>, and \<open>1 - a\<close> is negative.
\<close>

lemma double_sel:
  "fl double = roundDouble" "mathSin double = (\<lambda>x. roundDouble (sin x))"
  "mathCos double = (\<lambda>x. roundDouble (cos x))"
  "mathAtan2 double = (\<lambda>y x. roundDouble (atan2 y x))"
  by (simp_all add: double_def)

lemmas double_eval = addF_def subF_def mulF_def divF_def mathPI_def double_sel

lemma degree_double: "divF double (mathPI double) 180 = 5030569068109113 / 2 ^ 58"
  unfolding double_eval roundDouble_pi
  by (rule roundDouble_eval [where k = 58]) (simp_all add: roundHalfEven_def Let_def)

lemma deg2rad_double_8: "deg2rad double 8 = 5030569068109113 / 2 ^ 55"
  unfolding deg2rad_def degree_double unfolding double_eval
  by (rule roundDouble_eval [where k = 55]) (simp_all add: roundHalfEven_def Let_def)

lemma deg2rad_double_minus: "deg2rad double (- x) = - deg2rad double x"
  by (simp add: deg2rad_def mulF_def double_sel roundDouble_minus)

lemma deg2rad_double_16: "deg2rad double 16 = 5030569068109113 / 2 ^ 54"
  unfolding deg2rad_def degree_double unfolding double_eval
  by (rule roundDouble_eval [where k = 54]) (simp_all add: roundHalfEven_def Let_def)

lemma deg2rad_double_180: "deg2rad double 180 = 884279719003555 / 2 ^ 48"
  unfolding deg2rad_def degree_double unfolding double_eval
  by (rule roundDouble_eval [where k = 51]) (simp_all add: roundHalfEven_def Let_def)

lemma subF_double_lat: "subF double (- 8) 8 = - 16"
  unfolding double_eval
  by (rule roundDouble_eval [where k = 48]) (simp_all add: roundHalfEven_def Let_def)

lemma subF_double_lon: "subF double 180 0 = 180"
  unfolding double_eval
  by (rule roundDouble_eval [where k = 45]) (simp_all add: roundHalfEven_def Let_def)

lemma half_dLat: "divF double (deg2rad double (subF double (- 8) 8)) 2 = - (5030569068109113 / 2 ^ 55)"
  unfolding subF_double_lat deg2rad_double_minus deg2rad_double_16 unfolding double_eval
  by (rule roundDouble_eval [where k = 55]) (simp_all add: roundHalfEven_def Let_def)

lemma half_dLon: "divF double (deg2rad double (subF double 180 0)) 2 = 884279719003555 / 2 ^ 49"
  unfolding subF_double_lon deg2rad_double_180 unfolding double_eval
  by (rule roundDouble_eval [where k = 52]) (simp_all add: roundHalfEven_def Let_def)

lemma sin_dLat: "mathSin double (- (5030569068109113 / 2 ^ 55)) = - (5014239404989977 / 2 ^ 55)"
  by (simp only: double_sel sin_minus roundDouble_minus sin_8_degrees)

lemma sin_dLon: "mathSin double (884279719003555 / 2 ^ 49) = 1"
  by (simp only: double_sel sin_half_pi_double)

lemma cos_lat1: "mathCos double (deg2rad double 8) = 4459770905381437 / 2 ^ 52"
  by (simp only: double_sel deg2rad_double_8 cos_8_degrees)

lemma cos_lat2: "mathCos double (deg2rad double (- 8)) = 4459770905381437 / 2 ^ 52"
  by (simp only: double_sel deg2rad_double_minus deg2rad_double_8 cos_minus cos_8_degrees)

lemma sin_squared:
  "mulF double (- (5014239404989977 / 2 ^ 55)) (- (5014239404989977 / 2 ^ 55)) =
     1395694493897217 / 2 ^ 56"
  unfolding double_eval
  by (rule roundDouble_eval [where k = 58]) (simp_all add: roundHalfEven_def Let_def)

lemma cos_squared:
  "mulF double (4459770905381437 / 2 ^ 52) (4459770905381437 / 2 ^ 52) = 8832737443003841 / 2 ^ 53"
  unfolding double_eval
  by (rule roundDouble_eval [where k = 53]) (simp_all add: roundHalfEven_def Let_def)

lemma times_one: "mulF double (8832737443003841 / 2 ^ 53) 1 = 8832737443003841 / 2 ^ 53"
  unfolding double_eval
  by (rule roundDouble_eval [where k = 53]) (simp_all add: roundHalfEven_def Let_def)

lemma a_double:
  "addF double (1395694493897217 / 2 ^ 56) (8832737443003841 / 2 ^ 53) = 1 + 1 / 2 ^ 52"
  unfolding double_eval
  by (rule roundDouble_eval [where k = 52]) (simp_all add: roundHalfEven_def Let_def)

lemma one_minus_a: "subF double 1 (1 + 1 / 2 ^ 52) = - (1 / 2 ^ 52)"
  unfolding double_eval
  by (rule roundDouble_eval [where k = 104]) (simp_all add: roundHalfEven_def Let_def)

lemma calculateDistance_double_NaN: "calculateDistance double 8 0 (- 8) 180 = NaN"
  unfolding calculateDistance_def Let_def half_dLat half_dLon sin_dLat sin_dLon cos_lat1 cos_lat2
    sin_squared cos_squared times_one a_double one_minus_a
  by (simp add: mathSqrt_def)

section \<open>Facts about sorting, dates and distances\<close>

lemma showNat_digit: "n < 10 \<Longrightarrow> showNat n = [0x30 + n]"
  by (simp add: showNat.simps [of n])

lemma showNat_step: "10 \<le> n \<Longrightarrow> showNat n = showNat (n div 10) @ [0x30 + n mod 10]"
  by (simp add: showNat.simps [of n])

lemmas date_eval = dateGetTime_def parseIsoDate_def digitsValue_def isDigit_def
  daysInMonth_def isLeapYear_def dayFromYear_def dayWithinYear_def localeDatePL_def
  monthNamesPL_def showNat_digit showNat_step

lemma mset_insertSorted: "mset (insertSorted c x ys) = add_mset x (mset ys)"
  by (induction ys) auto

lemma mset_sortWith: "mset (sortWith c xs) = mset xs"
  by (induction xs) (auto simp: sortWith_def mset_insertSorted)

lemma set_sortWith: "set (sortWith c xs) = set xs"
  by (metis mset_sortWith set_mset_mset)

lemma length_sortWith: "length (sortWith c xs) = length xs"
  by (metis mset_sortWith size_mset)

lemma insertSorted_insort_key:
  fixes f :: "'a \<Rightarrow> 'k::linorder"
  assumes "\<forall>y \<in> set ys. isPositive (c x y) \<longleftrightarrow> f y < f x"
  shows "insertSorted c x ys = insort_key f x ys"
  using assms by (induction ys) (auto simp: not_less)

lemma sortWith_sort_key:
  fixes f :: "'a \<Rightarrow> 'k::linorder"
  assumes "\<forall>x \<in> set xs. \<forall>y \<in> set xs. isPositive (c x y) \<longleftrightarrow> f y < f x"
  shows "sortWith c xs = sort_key f xs"
  using assms
proof (induction xs)
  case Nil
  show ?case by (simp add: sortWith_def)
next
  case (Cons x xs)
  then have IH: "sortWith c xs = sort_key f xs" by simp
  have "\<forall>y \<in> set (sort_key f xs). isPositive (c x y) \<longleftrightarrow> f y < f x"
    using Cons.prems by simp
  then have "insertSorted c x (sort_key f xs) = insort_key f x (sort_key f xs)"
    by (rule insertSorted_insort_key)
  then show ?case using IH by (simp add: sortWith_def)
qed

lemma compareDates_valid:
  assumes "getTime (dateOf a) = Some ta" and "getTime (dateOf b) = Some tb"
  shows "isPositive (compareDates getTime a b) \<longleftrightarrow> tb < ta"
  using assms by (simp add: compareDates_def timeValue_def isPositive_def)

lemma compareDates_invalid:
  assumes "getTime (dateOf a) = None \<or> getTime (dateOf b) = None"
  shows "\<not> isPositive (compareDates getTime a b)"
  using assms by (auto simp: compareDates_def timeValue_def isPositive_def split: option.splits)

lemma sortByDate_sort_key:
  assumes "\<forall>r \<in> set rs. getTime (dateOf r) \<noteq> None"
  shows "sortByDate getTime rs = sort_key (\<lambda>r. the (getTime (dateOf r))) rs"
  unfolding sortByDate_def
proof (rule sortWith_sort_key, intro ballI)
  fix x y assume "x \<in> set rs" "y \<in> set rs"
  with assms have "getTime (dateOf x) \<noteq> None" "getTime (dateOf y) \<noteq> None"
    by blast+
  then obtain tx ty where "getTime (dateOf x) = Some tx" "getTime (dateOf y) = Some ty"
    by blast
  then show "isPositive (compareDates getTime x y) \<longleftrightarrow>
      the (getTime (dateOf y)) < the (getTime (dateOf x))"
    by (simp add: compareDates_valid)
qed

lemmas exact_eval = exact_def addF_def subF_def mulF_def divF_def mathSqrt_def mathPI_def
  deg2rad_def

lemma calculateDistance_same: "calculateDistance exact la lo la lo = Num 0"
  by (simp add: calculateDistance_def exact_eval atan2_def mathRound_def)

lemma calculateDistance_quarter_floor:
  "calculateDistance exact 0 0 0 90 = Num (of_int \<lfloor>31855 * pi + 1 / 2\<rfloor> / 10)"
proof -
  have d: "deg2rad exact (subF exact 90 0) = pi / 2" "divF exact (pi / 2) 2 = pi / 4"
    "deg2rad exact (subF exact 0 0) = 0" "divF exact 0 2 = 0" "deg2rad exact 0 = 0"
    by (simp_all add: exact_eval)
  have s: "sin (pi / 4) * sin (pi / 4) = (1 / 2 :: real)" by (simp add: sin_45)
  have a: "addF exact (mulF exact (mathSin exact 0) (mathSin exact 0))
      (mulF exact (mulF exact (mulF exact (mathCos exact 0) (mathCos exact 0))
         (mathSin exact (pi / 4))) (mathSin exact (pi / 4))) = 1 / 2"
    using s by (simp add: exact_eval)
  have r: "mathSqrt exact (1 / 2) = Num (sqrt (1 / 2))"
    "mathSqrt exact (subF exact 1 (1 / 2)) = Num (sqrt (1 / 2))"
    by (simp_all add: exact_eval)
  have t: "mathAtan2 exact (sqrt (1 / 2)) (sqrt (1 / 2)) = pi / 4"
    by (simp add: exact_eval atan2_def arctan_one)
  show ?thesis
    unfolding calculateDistance_def Let_def d a r
    by (simp add: t) (simp add: exact_eval mathRound_def)
qed

lemma calculateDistance_half_floor:
  "calculateDistance exact 0 0 0 180 = Num (of_int \<lfloor>63710 * pi + 1 / 2\<rfloor> / 10)"
proof -
  have d: "deg2rad exact (subF exact 180 0) = pi" "divF exact pi 2 = pi / 2"
    "deg2rad exact (subF exact 0 0) = 0" "divF exact 0 2 = 0" "deg2rad exact 0 = 0"
    by (simp_all add: exact_eval)
  have a: "addF exact (mulF exact (mathSin exact 0) (mathSin exact 0))
      (mulF exact (mulF exact (mulF exact (mathCos exact 0) (mathCos exact 0))
         (mathSin exact (pi / 2))) (mathSin exact (pi / 2))) = 1"
    by (simp add: exact_eval)
  have r: "mathSqrt exact 1 = Num 1" "mathSqrt exact (subF exact 1 1) = Num 0"
    by (simp_all add: exact_eval)
  have t: "mathAtan2 exact 1 0 = pi / 2"
    by (simp add: exact_eval atan2_def)
  show ?thesis
    unfolding calculateDistance_def Let_def d a r
    by (simp add: t) (simp add: exact_eval mathRound_def)
qed

text \<open>The two distances as decimal numbers, by the enclosure of \<open>pi\<close>.\<close>

lemma calculateDistance_quarter: "calculateDistance exact 0 0 0 90 = Num 10007.5"
proof -
  have "\<lfloor>31855 * pi + 1 / 2\<rfloor> = 100075"
    using pi_half_bounds by (intro floor_unique) (simp_all add: field_simps)
  then show ?thesis unfolding calculateDistance_quarter_floor by simp
qed

lemma calculateDistance_half: "calculateDistance exact 0 0 0 180 = Num 20015.1"
proof -
  have "\<lfloor>63710 * pi + 1 / 2\<rfloor> = 200151"
    using pi_half_bounds by (intro floor_unique) (simp_all add: field_simps)
  then show ?thesis unfolding calculateDistance_half_floor by simp
qed

text \<open>Under a sign-symmetric arithmetic the operations that the distance uses commute
  with negation.\<close>

lemma subF_swap: "signSymmetric A \<Longrightarrow> subF A x y = - subF A y x"
  unfolding signSymmetric_def subF_def by (metis minus_diff_eq)

lemma deg2rad_minus: "signSymmetric A \<Longrightarrow> deg2rad A (- x) = - deg2rad A x"
  unfolding signSymmetric_def deg2rad_def mulF_def by (metis mult_minus_left)

lemma halfSine_minus:
  "signSymmetric A \<Longrightarrow> mathSin A (divF A (- x) 2) = - mathSin A (divF A x 2)"
  unfolding signSymmetric_def divF_def by (metis minus_divide_left)

lemma mulF_minus_minus: "mulF A (- x) (- x) = mulF A x x"
  by (simp add: mulF_def)

lemma mulF_commute: "mulF A x y = mulF A y x"
  by (simp add: mulF_def mult.commute)

lemma mulF_minus_right: "signSymmetric A \<Longrightarrow> mulF A x (- y) = - mulF A x y"
  unfolding signSymmetric_def mulF_def by (metis mult_minus_right)

lemma mulF_minus_twice:
  assumes "signSymmetric A"
  shows "mulF A (mulF A p (- s)) (- s) = mulF A (mulF A p s) s"
proof -
  have "mulF A p (- s) = - mulF A p s"
    using assms by (rule mulF_minus_right)
  then have "mulF A (mulF A p (- s)) (- s) = mulF A (- mulF A p s) (- s)"
    by (rule arg_cong)
  also have "\<dots> = mulF A (mulF A p s) s"
    by (simp add: mulF_def)
  finally show ?thesis .
qed

lemma signSymmetric_exact: "signSymmetric exact"
  by (simp add: signSymmetric_def exact_def)

lemma signSymmetric_double: "signSymmetric double"
  by (simp add: signSymmetric_def double_def roundDouble_minus)

text \<open>Swapping the points negates \<open>dLat\<close> and \<open>dLon\<close>; their sines enter the sum as
  squares, and the product of the two cosines commutes. So under a sign-symmetric
  arithmetic the number \<open>a\<close> is the same in both orders, and with it the result: the same
  finite number, or \<open>NaN\<close> both times.\<close>

lemma calculateDistance_swap:
  assumes "signSymmetric A"
  shows "calculateDistance A lat1 lon1 lat2 lon2 = calculateDistance A lat2 lon2 lat1 lon1"
proof -
  have s: "mathSin A (divF A (deg2rad A (subF A x y)) 2) =
           - mathSin A (divF A (deg2rad A (subF A y x)) 2)" for x y
    using assms by (metis subF_swap deg2rad_minus halfSine_minus)
  have sq: "mulF A (mathSin A (divF A (deg2rad A (subF A x y)) 2))
                   (mathSin A (divF A (deg2rad A (subF A x y)) 2)) =
            mulF A (mathSin A (divF A (deg2rad A (subF A y x)) 2))
                   (mathSin A (divF A (deg2rad A (subF A y x)) 2))" for x y
    unfolding s [of x y] by (rule mulF_minus_minus)
  have pr: "mulF A (mulF A p (mathSin A (divF A (deg2rad A (subF A x y)) 2)))
                   (mathSin A (divF A (deg2rad A (subF A x y)) 2)) =
            mulF A (mulF A p (mathSin A (divF A (deg2rad A (subF A y x)) 2)))
                   (mathSin A (divF A (deg2rad A (subF A y x)) 2))" for p x y
    unfolding s [of x y] using assms by (rule mulF_minus_twice)
  show ?thesis
    unfolding calculateDistance_def Let_def sq [of lat2 lat1] pr [of _ lon2 lon1]
      mulF_commute [of A "mathCos A (deg2rad A lat1)"] ..
qed

text \<open>A number is equal to itself unless it is \<open>NaN\<close>.\<close>

lemma numberEquals_same: "numberEquals x x \<longleftrightarrow> x \<noteq> NaN"
  by (simp add: numberEquals_def)

text \<open>
  In exact arithmetic the number \<open>a\<close> lies between 0 and 1: it is linear in the squared
  sine of the half difference of the longitudes, between the squared sine of the half
  difference of the latitudes and the squared cosine of their half sum. So both square
  roots are finite, the distance is a finite number for all coordinates, and it compares
  equal in the two orders of the points. \<open>NaN\<close> arises from rounding only.
\<close>

lemma haversine_range:
  fixes p q l :: real
  shows "0 \<le> sin ((q - p) / 2) * sin ((q - p) / 2) + cos p * cos q * sin l * sin l"
    and "sin ((q - p) / 2) * sin ((q - p) / 2) + cos p * cos q * sin l * sin l \<le> 1"
proof -
  define S where "S = (sin ((q - p) / 2))\<^sup>2"
  define C where "C = cos p * cos q"
  define u where "u = (sin l)\<^sup>2"
  have "2 * ((q - p) / 2) = q - p" by (rule nonzero_mult_div_cancel_left [THEN trans [OF times_divide_eq_right]]) simp
  then have "cos (q - p) = cos (2 * ((q - p) / 2))" by (rule arg_cong [symmetric])
  also have "\<dots> = 1 - 2 * S" unfolding S_def by (rule cos_double_sin)
  finally have S: "S = (1 - cos (q - p)) / 2" by simp
  have SC: "S + C = (1 + cos (p + q)) / 2"
    unfolding S C_def by (simp add: cos_add cos_diff field_simps)
  have S0: "0 \<le> S"
    unfolding S using cos_le_one [of "q - p"] by (simp; linarith)
  have S1: "S \<le> 1"
    unfolding S using cos_ge_minus_one [of "q - p"] by (simp; linarith)
  have SC0: "0 \<le> S + C"
    unfolding SC using cos_ge_minus_one [of "p + q"] by (simp; linarith)
  have SC1: "S + C \<le> 1"
    unfolding SC using cos_le_one [of "p + q"] by (simp; linarith)
  have u0: "0 \<le> u" by (simp add: u_def)
  have u1: "u \<le> 1" unfolding u_def by (simp add: abs_square_le_1)
  have a: "sin ((q - p) / 2) * sin ((q - p) / 2) + cos p * cos q * sin l * sin l = S + C * u"
    by (simp add: S_def C_def u_def power2_eq_square)
  have "0 \<le> (1 - u) * S" "0 \<le> u * (S + C)"
    using S0 SC0 u0 u1 by simp_all
  then have "0 \<le> (1 - u) * S + u * (S + C)"
    by (rule add_nonneg_nonneg)
  then show "0 \<le> sin ((q - p) / 2) * sin ((q - p) / 2) + cos p * cos q * sin l * sin l"
    unfolding a by (simp add: algebra_simps)
  have "0 \<le> (1 - u) * (1 - S)" "0 \<le> u * (1 - (S + C))"
    using S1 SC1 u0 u1 by simp_all
  then have "0 \<le> (1 - u) * (1 - S) + u * (1 - (S + C))"
    by (rule add_nonneg_nonneg)
  then show "sin ((q - p) / 2) * sin ((q - p) / 2) + cos p * cos q * sin l * sin l \<le> 1"
    unfolding a by (simp add: algebra_simps)
qed

lemma calculateDistance_exact_finite:
  "\<exists>d. calculateDistance exact lat1 lon1 lat2 lon2 = Num d"
proof -
  let ?p = "lat1 * (pi / 180)" and ?q = "lat2 * (pi / 180)"
  let ?w = "(lat2 - lat1) * (pi / 180) / 2" and ?l = "(lon2 - lon1) * (pi / 180) / 2"
  let ?a = "sin ?w * sin ?w + cos ?p * cos ?q * sin ?l * sin ?l"
  have a: "addF exact
      (mulF exact (mathSin exact (divF exact (deg2rad exact (subF exact lat2 lat1)) 2))
         (mathSin exact (divF exact (deg2rad exact (subF exact lat2 lat1)) 2)))
      (mulF exact
         (mulF exact
            (mulF exact (mathCos exact (deg2rad exact lat1)) (mathCos exact (deg2rad exact lat2)))
            (mathSin exact (divF exact (deg2rad exact (subF exact lon2 lon1)) 2)))
         (mathSin exact (divF exact (deg2rad exact (subF exact lon2 lon1)) 2))) = ?a"
    by (simp only: exact_eval arithmetic.select_convs)
  have w: "?w = (?q - ?p) / 2" by (simp add: left_diff_distrib)
  have "0 \<le> ?a" "?a \<le> 1" unfolding w by (rule haversine_range)+
  then have "mathSqrt exact ?a = Num (sqrt ?a)" "mathSqrt exact (subF exact 1 ?a) = Num (sqrt (1 - ?a))"
    by (simp_all add: mathSqrt_def subF_def exact_def)
  then show ?thesis
    unfolding calculateDistance_def Let_def a by simp
qed

lemma calculateDistance_exact_symmetric:
  "numberEquals (calculateDistance exact lat1 lon1 lat2 lon2)
                (calculateDistance exact lat2 lon2 lat1 lon1)"
proof -
  obtain d where "calculateDistance exact lat1 lon1 lat2 lon2 = Num d"
    using calculateDistance_exact_finite by blast
  moreover have "calculateDistance exact lat2 lon2 lat1 lon1 = calculateDistance exact lat1 lon1 lat2 lon2"
    using signSymmetric_exact by (rule calculateDistance_swap)
  ultimately show ?thesis by (simp add: numberEquals_def)
qed

text \<open>The second comparator is consistent on every list: it is the comparison of the
  keys. So the distance sort is the stable sort by \<open>distanceKey\<close>, on every input.\<close>

lemma orInfinity_not_NaN: "orInfinity d \<noteq> NaN"
  by (simp add: orInfinity_def split: option.splits number.splits)

lemma compareDistances_key:
  "isPositive (compareDistances x y) \<longleftrightarrow> distanceKey y < distanceKey x"
  using orInfinity_not_NaN [of "distance x"] orInfinity_not_NaN [of "distance y"]
  by (cases "orInfinity (distance x)"; cases "orInfinity (distance y)")
     (simp_all add: compareDistances_def isPositive_def distanceKey_def)

lemma sortByDistance_sort_key: "sortByDistance rs = sort_key distanceKey rs"
  unfolding sortByDistance_def
  by (rule sortWith_sort_key) (simp add: compareDistances_key)

lemma dates_examples:
  "dateGetTime (dateOf atUser) = Some 1736467200000"
  "dateGetTime (dateOf farEarly) = Some 1739577600000"
  "dateGetTime (dateOf nearLate) = Some 1740787200000"
  by (simp_all add: atUser_def farEarly_def nearLate_def date_eval ascii_def)

lemma sortByDate_atUser_nearLate:
  "sortByDate dateGetTime [atUser, nearLate] = [atUser, nearLate]"
  by (simp add: sortByDate_def sortWith_def compareDates_def timeValue_def isPositive_def
      dates_examples)

lemma sortByDate_farEarly_nearLate:
  "sortByDate dateGetTime [farEarly, nearLate] = [farEarly, nearLate]"
  by (simp add: sortByDate_def sortWith_def compareDates_def timeValue_def isPositive_def
      dates_examples)

lemma coordinates_examples:
  "latitude (attributes atUser) = 0" "longitude (attributes atUser) = 0"
  "latitude (attributes nearLate) = 0" "longitude (attributes nearLate) = 90"
  "latitude (attributes farEarly) = 0" "longitude (attributes farEarly) = 180"
  "lat origin = 0" "lon origin = 0"
  by (simp_all add: atUser_def nearLate_def farEarly_def origin_def)

lemma rank_farEarly_nearLate:
  "rankFacilities exact dateGetTime (Some origin) [farEarly, nearLate] =
     [withDistance (Some (calculateDistance exact 0 0 0 90)) nearLate,
      withDistance (Some (calculateDistance exact 0 0 0 180)) farEarly]"
proof -
  have "rankFacilities exact dateGetTime (Some origin) [farEarly, nearLate] =
      sortByDistance [withDistance (Some (calculateDistance exact 0 0 0 180)) farEarly,
                      withDistance (Some (calculateDistance exact 0 0 0 90)) nearLate]"
    by (simp add: rankFacilities_def sortByDate_farEarly_nearLate annotateDistance_def
        coordinates_examples)
  also have "\<dots> = [withDistance (Some (calculateDistance exact 0 0 0 90)) nearLate,
                   withDistance (Some (calculateDistance exact 0 0 0 180)) farEarly]"
    by (simp add: sortByDistance_def sortWith_def compareDistances_def orInfinity_def
        isPositive_def withDistance_def calculateDistance_quarter calculateDistance_half)
  finally show ?thesis .
qed

text \<open>Without a location the first record of the results has the earliest date of all,
  when every date has a time value; this is the record whose date the summary prints.\<close>

lemma dateOf_withDistance [simp]: "dateOf (withDistance d q) = dateOf q"
  by (simp add: withDistance_def)

lemma earliest_first_without_location:
  assumes valid: "\<forall>r \<in> set data. getTime (dateOf r) \<noteq> None" and "r \<in> set data"
  shows "the (getTime (dateOf (hd (rankFacilities A getTime None data))))
           \<le> the (getTime (dateOf r))"
proof -
  let ?key = "\<lambda>r. the (getTime (dateOf r))"
  let ?sorted = "sort_key ?key data"
  have ne: "?sorted \<noteq> []"
    using assms(2) by (metis empty_iff length_0_conv length_sort list.set(1))
  have rank: "rankFacilities A getTime None data = map (withDistance None) ?sorted"
    using valid by (simp add: rankFacilities_def annotateDistance_def sortByDate_sort_key)
  have hd: "dateOf (hd (rankFacilities A getTime None data)) = dateOf (hd ?sorted)"
    unfolding rank using ne by (simp add: hd_map)
  have "sorted (map ?key ?sorted)" by simp
  moreover have "r \<in> set ?sorted" using assms(2) by simp
  ultimately have "?key (hd ?sorted) \<le> ?key r"
    using ne by (cases ?sorted) auto
  then show ?thesis unfolding hd .
qed

text \<open>Every failure leaves \<open>request\<close> as a rejection: a value comes back only from a
  response with a success status whose body is a payload.\<close>

lemma request_value_iff:
  "request fetched = Inr d \<longleftrightarrow>
     (\<exists>response. fetched = Resolved response \<and> ok response \<and> json response = Inr (Payload d))"
  by (auto simp: request_def split: Fetched.splits sum.splits Body.splits list.splits)

section \<open>Evaluating the parser on the example texts\<close>

lemma benefitKeywords_ok: "\<forall>k \<in> set benefitKeywords. k \<noteq> [] \<and> SP \<notin> set k"
  by (simp add: benefitKeywords_def ascii_def SP_def)

lemma normalize_twoTriggers:
  "normalizeText toLowerCase twoTriggers = ascii ''rehabilitacja kardiologiczna poradnia ortopedyczna''"
  by (simp add: normalizeText_def toLowerCase_def lowerUnit_def twoTriggers_def
      replacePunctuation_def punctuation_def isWhiteSpace_def ascii_def SP_def)

lemma benefit_twoTriggers:
  "benefit (parseReferral toLowerCase twoTriggers) = ascii ''poradnia''"
proof -
  let ?a = "ascii ''rehabilitacja kardiologiczna ''" and ?k = "ascii ''poradnia''"
  let ?b = "ascii '' ortopedyczna''"
  have t: "normalizeText toLowerCase twoTriggers = ?a @ ?k @ ?b"
    unfolding normalize_twoTriggers by (simp add: ascii_def)
  have "\<not> includes_str (?a @ butlast ?k) ?k" by (simp add: ascii_def)
  moreover have "SP \<notin> set ?k" by (simp add: ascii_def SP_def)
  ultimately have "phraseAround (?a @ ?k @ ?b) ?k =
      rev (takeWhile (\<lambda>c. c \<noteq> SP) (rev ?a)) @ ?k @ takeWhile (\<lambda>c. c \<noteq> SP) ?b"
    by (rule phraseAround_token)
  also have "\<dots> = ?k" by (simp add: ascii_def SP_def)
  finally have "phraseAround (?a @ ?k @ ?b) ?k = ?k" .
  moreover have "findBenefit (?a @ ?k @ ?b) benefitKeywords = phraseAround (?a @ ?k @ ?b) ?k"
    using includes_str_append [of ?a ?k ?b] by (simp add: benefitKeywords_def)
  ultimately show ?thesis by (simp add: parseReferral_def t Let_def)
qed

lemma textOrder_twoTriggers:
  "benefitInTextOrder (normalizeText toLowerCase twoTriggers) = ascii ''rehabilitacja''"
  unfolding normalize_twoTriggers
  by (simp add: benefitInTextOrder_def benefitKeywords_def surrounding_def ascii_def SP_def)

lemma normalize_atEndOfText:
  "normalizeText toLowerCase atEndOfText = ascii ''zabieg rehabilitacja''"
  by (simp add: normalizeText_def toLowerCase_def lowerUnit_def atEndOfText_def
      replacePunctuation_def punctuation_def isWhiteSpace_def ascii_def SP_def)

lemma normalize_referralText:
  "normalizeText toLowerCase referralText =
     ascii ''prosz'' @ [0x119] @ ascii '' o skierowanie do poradni kardiologicznej''"
  by (simp add: normalizeText_def toLowerCase_def lowerUnit_def referralText_def
      replacePunctuation_def punctuation_def isWhiteSpace_def ascii_def SP_def)

lemma parse_referralText:
  "parseReferral toLowerCase referralText =
     \<lparr> benefit = [],
       keywordList = [ascii ''prosz'' @ [0x119], ascii ''skierowanie'', ascii ''poradni'',
                      ascii ''kardiologicznej''] \<rparr>"
  unfolding parseReferral_def normalize_referralText
  by (simp add: ascii_def SP_def benefitKeywords_def stopWords_def)

section \<open>The province table and the referral parser: the claims\<close>

text \<open>
  Claim C9. The province table has exactly 16 entries, its codes are the two-digit
  strings \<open>01\<close> to \<open>16\<close>, all different, and every code has a display name that is
  not empty.
\<close>

theorem provinces_table:
  "length PROVINCES = 16 \<and>
   map fst PROVINCES =
     map ascii [''01'', ''02'', ''03'', ''04'', ''05'', ''06'', ''07'', ''08'',
                ''09'', ''10'', ''11'', ''12'', ''13'', ''14'', ''15'', ''16''] \<and>
   distinct (map fst PROVINCES) \<and>
   (\<forall>(code, name) \<in> set PROVINCES. twoDigitCode code \<and> name \<noteq> [])"
  by (simp add: PROVINCES_def twoDigitCode_def isDigit_def ascii_def)

text \<open>The entry of the code \<open>07\<close>, the default province of the search form.\<close>

theorem provinces_table_witness:
  "(ascii ''07'', ascii ''MAZOWIECKIE'') \<in> set PROVINCES \<and>
   twoDigitCode (ascii ''07'') \<and> ascii ''MAZOWIECKIE'' \<noteq> []"
proof -
  have m: "(ascii ''07'', ascii ''MAZOWIECKIE'') \<in> set PROVINCES"
    by (simp add: PROVINCES_def)
  with provinces_table show ?thesis by blast
qed

text \<open>
  Claim C2, as stated, at the text of the specification,
  \<open>Prosze o skierowanie do poradni kardiologicznej\<close> (with E WITH OGONEK): the benefit
  is not a non-empty string containing \<open>poradni kardiologicznej\<close>. The text has the
  inflected form \<open>poradni\<close>; the trigger word is \<open>poradnia\<close>, which does not occur in
  it, and no other trigger word does.
\<close>

theorem parseReferral_example_counterexample:
  "\<not> (benefit (parseReferral toLowerCase referralText) \<noteq> [] \<and>
      includes_str (benefit (parseReferral toLowerCase referralText))
        (ascii ''poradni kardiologicznej''))"
  unfolding parse_referralText by simp

text \<open>
  Claim C2, amended. For that text the parser returns the empty benefit and the keywords
  \<open>prosze\<close> (with E WITH OGONEK), \<open>skierowanie\<close>, \<open>poradni\<close>, \<open>kardiologicznej\<close>:
  none of them is a stop word and none is shorter than 3 characters.
\<close>

theorem parseReferral_example:
  "benefit (parseReferral toLowerCase referralText) = [] \<and>
   keywordList (parseReferral toLowerCase referralText) =
     [ascii ''prosz'' @ [0x119], ascii ''skierowanie'', ascii ''poradni'',
      ascii ''kardiologicznej''] \<and>
   list_all (\<lambda>word. 3 \<le> length word \<and> word \<notin> set stopWords)
     (keywordList (parseReferral toLowerCase referralText))"
  unfolding parse_referralText by (simp add: ascii_def stopWords_def)

text \<open>
  Claim C5, as stated, at the text \<open>Rehabilitacja kardiologiczna, poradnia
  ortopedyczna\<close>: the trigger word met first in text order is \<open>rehabilitacja\<close>, and the
  parser returns \<open>poradnia\<close>, the trigger word that comes first in the list.
\<close>

theorem parseReferral_text_order_counterexample:
  "benefit (parseReferral toLowerCase twoTriggers) = ascii ''poradnia'' \<and>
   benefitInTextOrder (normalizeText toLowerCase twoTriggers) = ascii ''rehabilitacja'' \<and>
   benefit (parseReferral toLowerCase twoTriggers)
     \<noteq> benefitInTextOrder (normalizeText toLowerCase twoTriggers)"
  unfolding benefit_twoTriggers textOrder_twoTriggers by (simp add: ascii_def)

text \<open>
  Claim C5, amended. The trigger words are tried in the order of the list. For the first
  of them that occurs in the normalized text, the benefit is the piece of the text
  around its first occurrence, from after the last space before it up to the next space
  after it; when no space follows, the piece runs to the end of the text. Here \<open>a\<close> is
  the text before the first occurrence of the trigger word \<open>k\<close> and \<open>b\<close> the text after it.
\<close>

theorem parseReferral_list_order:
  assumes "normalizeText lc text = a @ k @ b"
    and "\<not> includes_str (a @ butlast k) k"
    and "benefitKeywords = ks1 @ k # ks2"
    and "\<forall>k' \<in> set ks1. \<not> includes_str (normalizeText lc text) k'"
  shows "benefit (parseReferral lc text) =
           rev (takeWhile (\<lambda>c. c \<noteq> SP) (rev a)) @ k @ takeWhile (\<lambda>c. c \<noteq> SP) b"
proof -
  have "k \<in> set benefitKeywords" unfolding assms(3) by simp
  then have nosp: "SP \<notin> set k" using benefitKeywords_ok by blast
  have "includes_str (normalizeText lc text) k"
    unfolding assms(1) by (rule includes_str_append)
  with assms(4) have "findBenefit (normalizeText lc text) (ks1 @ k # ks2) =
      phraseAround (normalizeText lc text) k"
    by (rule findBenefit_first)
  then have "findBenefit (normalizeText lc text) benefitKeywords =
      phraseAround (normalizeText lc text) k"
    unfolding assms(3) .
  then have "benefit (parseReferral lc text) = phraseAround (a @ k @ b) k"
    unfolding assms(1) by (simp add: parseReferral_def Let_def assms(1))
  then show ?thesis using phraseAround_token [OF assms(2) nosp] by simp
qed

text \<open>The text \<open>Zabieg: rehabilitacja\<close>: the fourth trigger word, with the three before
  it absent, and the phrase running to the end of the text.\<close>

theorem parseReferral_list_order_witness:
  "normalizeText toLowerCase atEndOfText = ascii ''zabieg '' @ ascii ''rehabilitacja'' @ [] \<and>
   \<not> includes_str (ascii ''zabieg '' @ butlast (ascii ''rehabilitacja'')) (ascii ''rehabilitacja'') \<and>
   benefitKeywords = take 3 benefitKeywords @ ascii ''rehabilitacja'' # [] \<and>
   \<not> includes_str (normalizeText toLowerCase atEndOfText) (benefitKeywords ! 0) \<and>
   \<not> includes_str (normalizeText toLowerCase atEndOfText) (benefitKeywords ! 1) \<and>
   \<not> includes_str (normalizeText toLowerCase atEndOfText) (benefitKeywords ! 2) \<and>
   benefit (parseReferral toLowerCase atEndOfText) = ascii ''rehabilitacja''"
proof -
  have h1: "normalizeText toLowerCase atEndOfText = ascii ''zabieg '' @ ascii ''rehabilitacja'' @ []"
    unfolding normalize_atEndOfText by (simp add: ascii_def)
  have h2: "\<not> includes_str (ascii ''zabieg '' @ butlast (ascii ''rehabilitacja'')) (ascii ''rehabilitacja'')"
    by (simp add: ascii_def)
  have h3: "benefitKeywords = take 3 benefitKeywords @ ascii ''rehabilitacja'' # []"
    by (simp add: benefitKeywords_def)
  have n0: "\<not> includes_str (normalizeText toLowerCase atEndOfText) (benefitKeywords ! 0)"
    and n1: "\<not> includes_str (normalizeText toLowerCase atEndOfText) (benefitKeywords ! 1)"
    and n2: "\<not> includes_str (normalizeText toLowerCase atEndOfText) (benefitKeywords ! 2)"
    unfolding normalize_atEndOfText by (simp_all add: benefitKeywords_def ascii_def)
  have "set (take 3 benefitKeywords) = {benefitKeywords ! 0, benefitKeywords ! 1, benefitKeywords ! 2}"
    by (simp add: benefitKeywords_def)
  with n0 n1 n2 have h4: "\<forall>k' \<in> set (take 3 benefitKeywords).
      \<not> includes_str (normalizeText toLowerCase atEndOfText) k'"
    by simp
  have "benefit (parseReferral toLowerCase atEndOfText) =
      rev (takeWhile (\<lambda>c. c \<noteq> SP) (rev (ascii ''zabieg ''))) @ ascii ''rehabilitacja'' @
      takeWhile (\<lambda>c. c \<noteq> SP) []"
    using parseReferral_list_order [OF h1 h2 h3 h4] .
  then have "benefit (parseReferral toLowerCase atEndOfText) = ascii ''rehabilitacja''"
    by (simp add: ascii_def SP_def)
  with h1 h2 h3 n0 n1 n2 show ?thesis by blast
qed

text \<open>
  Claim C10. For every text (and every lower-casing function) the benefit contains no
  space character, and it is either empty or one of the pieces that \<open>split(" ")\<close>
  gives for the normalized text. So it is never a phrase of two words.
\<close>

theorem parseReferral_benefit_one_token:
  "SP \<notin> set (benefit (parseReferral lc text)) \<and>
   (benefit (parseReferral lc text) = [] \<or>
    benefit (parseReferral lc text) \<in> set (split_space (normalizeText lc text)))"
proof -
  let ?t = "normalizeText lc text"
  have b: "benefit (parseReferral lc text) = findBenefit ?t benefitKeywords"
    by (simp add: parseReferral_def Let_def)
  show ?thesis
  proof (cases "findBenefit ?t benefitKeywords = []")
    case True
    then show ?thesis unfolding b by simp
  next
    case False
    with findBenefit_cases [of ?t benefitKeywords] obtain k
      where k: "k \<in> set benefitKeywords" "includes_str ?t k"
        "findBenefit ?t benefitKeywords = phraseAround ?t k"
      by blast
    from k(1) benefitKeywords_ok have kne: "k \<noteq> []" and nosp: "SP \<notin> set k" by blast+
    from includes_str_first [OF k(2) kne] obtain a b'
      where t: "?t = a @ k @ b'" and first: "\<not> includes_str (a @ butlast k) k" by blast
    let ?l = "takeWhile (\<lambda>c. c \<noteq> SP) (rev a)"
    let ?r = "takeWhile (\<lambda>c. c \<noteq> SP) b'"
    let ?p = "rev (dropWhile (\<lambda>c. c \<noteq> SP) (rev a))"
    let ?q = "dropWhile (\<lambda>c. c \<noteq> SP) b'"
    let ?tok = "rev ?l @ k @ ?r"
    have "phraseAround ?t k = ?tok"
      unfolding t by (rule phraseAround_token [OF first nosp])
    with k(3) have tok: "findBenefit ?t benefitKeywords = ?tok"
      by (rule trans)
    have "SP \<notin> set (rev ?l)"
      using set_takeWhileD [of SP "\<lambda>c. c \<noteq> SP" "rev a"] by auto
    moreover have "SP \<notin> set ?r"
      using set_takeWhileD [of SP "\<lambda>c. c \<noteq> SP" b'] by auto
    ultimately have free: "SP \<notin> set ?tok" using nosp by simp
    have p: "?p = [] \<or> last ?p = SP"
      using hd_dropWhile [of "\<lambda>c. c \<noteq> SP" "rev a"] by (auto simp: last_rev)
    have q: "?q = [] \<or> hd ?q = SP"
      using hd_dropWhile [of "\<lambda>c. c \<noteq> SP" b'] by auto
    have "a = ?p @ rev ?l"
      by (metis rev_append rev_rev_ident takeWhile_dropWhile_id)
    then have "?t = ?p @ ?tok @ ?q"
      unfolding t by (metis append.assoc takeWhile_dropWhile_id)
    then have "?tok \<in> set (split_space ?t)"
      using token_in_split_space [OF free p q] by simp
    with free show ?thesis unfolding b tok by simp
  qed
qed

text \<open>The text with two trigger words: the benefit is the single piece
  \<open>poradnia\<close>.\<close>

theorem parseReferral_benefit_one_token_witness:
  "benefit (parseReferral toLowerCase twoTriggers) = ascii ''poradnia'' \<and>
   SP \<notin> set (ascii ''poradnia'') \<and>
   ascii ''poradnia'' \<in> set (split_space (normalizeText toLowerCase twoTriggers))"
  using parseReferral_benefit_one_token [of toLowerCase twoTriggers]
  unfolding benefit_twoTriggers by (simp add: ascii_def)

section \<open>Ranking, distance and the registry client: the claims\<close>

text \<open>
  Claim C3, as stated, at a response of two records: the first has no date (the empty
  string, \<open>applicable\<close> false), the second the date 2025-02-15. The time value of the
  empty string is \<open>NaN\<close>, the comparator returns \<open>NaN\<close> in both directions, which the
  sort reads as equal, and the stable sort leaves the record without a date in front of
  the record with one. In the other input order it stays behind: its place follows the
  input order.
\<close>

theorem sortByDate_counterexample:
  "dateGetTime (dateOf noDate) = None \<and>
   dateGetTime (dateOf farEarly) = Some 1739577600000 \<and>
   sortByDate dateGetTime [noDate, farEarly] = [noDate, farEarly] \<and>
   sortByDate dateGetTime [farEarly, noDate] = [farEarly, noDate]"
  by (simp add: sortByDate_def sortWith_def compareDates_def timeValue_def isPositive_def
      noDate_def farEarly_def date_eval ascii_def)

text \<open>
  Claim C3, amended. Sorting by date drops no record, whatever the dates are. When the
  date of every record has a time value, the result is ascending by that time value, and
  stable: the records of one date keep the order they had in the input. (A record whose
  date has no time value compares as equal to every record; it is not moved behind the
  dated ones.)
\<close>

theorem sortByDate_ascending_stable:
  "mset (sortByDate getTime rs) = mset rs \<and>
   ((\<forall>r \<in> set rs. getTime (dateOf r) \<noteq> None) \<longrightarrow>
      sorted (map (\<lambda>r. the (getTime (dateOf r))) (sortByDate getTime rs)) \<and>
      (\<forall>t. filter (\<lambda>r. getTime (dateOf r) = Some t) (sortByDate getTime rs)
           = filter (\<lambda>r. getTime (dateOf r) = Some t) rs))"
proof (intro conjI impI allI)
  show "mset (sortByDate getTime rs) = mset rs"
    by (simp add: sortByDate_def mset_sortWith)
next
  assume valid: "\<forall>r \<in> set rs. getTime (dateOf r) \<noteq> None"
  let ?key = "\<lambda>r. the (getTime (dateOf r))"
  have eq: "sortByDate getTime rs = sort_key ?key rs"
    using valid by (rule sortByDate_sort_key)
  show "sorted (map ?key (sortByDate getTime rs))"
    unfolding eq by simp
  fix t
  have same: "filter (\<lambda>r. getTime (dateOf r) = Some t) xs = filter (\<lambda>r. ?key r = t) xs"
    if "set xs = set rs" for xs :: "'a Queue_scheme list"
    using that valid by (intro filter_cong) auto
  have "filter (\<lambda>r. getTime (dateOf r) = Some t) (sort_key ?key rs)
      = filter (\<lambda>r. ?key r = t) (sort_key ?key rs)"
    by (rule same) simp
  also have "\<dots> = filter (\<lambda>r. ?key r = t) rs"
    by (rule sort_key_stable)
  also have "\<dots> = filter (\<lambda>r. getTime (dateOf r) = Some t) rs"
    by (rule same [symmetric]) simp
  finally show "filter (\<lambda>r. getTime (dateOf r) = Some t) (sortByDate getTime rs)
      = filter (\<lambda>r. getTime (dateOf r) = Some t) rs"
    unfolding eq .
qed

text \<open>The scenario of the specification: the records of 2025-03-01 and 2025-02-15, in
  this order, come out with the record of 2025-02-15 first.\<close>

theorem sortByDate_ascending_stable_witness:
  "dateGetTime (dateOf nearLate) = Some 1740787200000 \<and>
   dateGetTime (dateOf farEarly) = Some 1739577600000 \<and>
   sortByDate dateGetTime [nearLate, farEarly] = [farEarly, nearLate] \<and>
   mset (sortByDate dateGetTime [nearLate, farEarly]) = mset [nearLate, farEarly] \<and>
   sorted (map (\<lambda>r. the (dateGetTime (dateOf r))) (sortByDate dateGetTime [nearLate, farEarly]))"
proof -
  have n: "dateGetTime (dateOf nearLate) = Some 1740787200000"
    by (simp add: nearLate_def date_eval ascii_def)
  have f: "dateGetTime (dateOf farEarly) = Some 1739577600000"
    by (simp add: farEarly_def date_eval ascii_def)
  have s: "sortByDate dateGetTime [nearLate, farEarly] = [farEarly, nearLate]"
    by (simp add: sortByDate_def sortWith_def compareDates_def timeValue_def isPositive_def n f)
  have "\<forall>r \<in> set [nearLate, farEarly]. dateGetTime (dateOf r) \<noteq> None"
    by (simp add: n f)
  with sortByDate_ascending_stable [of dateGetTime "[nearLate, farEarly]"]
  have "mset (sortByDate dateGetTime [nearLate, farEarly]) = mset [nearLate, farEarly]"
    and "sorted (map (\<lambda>r. the (dateGetTime (dateOf r))) (sortByDate dateGetTime [nearLate, farEarly]))"
    by blast+
  with n f s show ?thesis by blast
qed

text \<open>
  Claim C7. Without a user location the distance block gives back every record as it
  was, in the same order, and no record has a distance; so the result of the whole
  ranking is the list sorted by date, with no distance on any record.
\<close>

theorem annotateDistance_without_location:
  "map queueOf (annotateDistance A None rs) = rs \<and>
   (\<forall>r \<in> set (annotateDistance A None rs). distance r = None) \<and>
   map queueOf (rankFacilities A getTime None rs) = sortByDate getTime rs \<and>
   (\<forall>r \<in> set (rankFacilities A getTime None rs). distance r = None)"
proof -
  have m: "map queueOf (map (withDistance None) xs) = xs" for xs :: "Queue list"
    by (induction xs) (simp_all add: queueOf_def withDistance_def)
  have d: "\<forall>r \<in> set (map (withDistance None) xs). distance r = None" for xs :: "Queue list"
    by (simp add: withDistance_def)
  show ?thesis
    using m d by (simp add: annotateDistance_def rankFacilities_def)
qed

text \<open>Two records, passed through without a location.\<close>

theorem annotateDistance_without_location_witness:
  "annotateDistance exact None [nearLate, farEarly] =
     [withDistance None nearLate, withDistance None farEarly] \<and>
   map queueOf (annotateDistance exact None [nearLate, farEarly]) = [nearLate, farEarly] \<and>
   distance (withDistance None nearLate) = None \<and>
   distance (withDistance None farEarly) = None"
proof -
  have a: "annotateDistance exact None [nearLate, farEarly] =
     [withDistance None nearLate, withDistance None farEarly]"
    by (simp add: annotateDistance_def)
  from annotateDistance_without_location [of exact "[nearLate, farEarly]" dateGetTime]
  have "map queueOf (annotateDistance exact None [nearLate, farEarly]) = [nearLate, farEarly]"
    and "\<forall>r \<in> set (annotateDistance exact None [nearLate, farEarly]). distance r = None"
    by blast+
  then show ?thesis unfolding a by simp
qed

text \<open>
  Claim C8, at a failing input. The points are latitude 8, longitude 0 and latitude -8,
  longitude 180, opposite each other on the globe. In double arithmetic the squares of
  the sine and of the cosine of 8 degrees are both rounded up, and their sum \<open>a\<close> is
  \<open>1 + 2 ^ - 52\<close>. Then \<open>1 - a\<close> is negative, \<open>Math.sqrt(1 - a)\<close> is \<open>NaN\<close>, and so is the
  distance, in both orders of the points; the comparison \<open>==\<close> of the two results is
  false. In exact arithmetic \<open>a\<close> is never greater than 1.
\<close>

theorem calculateDistance_antipodal_NaN:
  "calculateDistance double 8 0 (- 8) 180 = NaN \<and>
   calculateDistance double (- 8) 180 8 0 = NaN \<and>
   \<not> numberEquals (calculateDistance double 8 0 (- 8) 180)
                    (calculateDistance double (- 8) 180 8 0)"
proof -
  have direct: "calculateDistance double 8 0 (- 8) 180 = NaN"
    by (rule calculateDistance_double_NaN)
  have "calculateDistance double (- 8) 180 8 0 = calculateDistance double 8 0 (- 8) 180"
    using signSymmetric_double by (rule calculateDistance_swap)
  then have swapped: "calculateDistance double (- 8) 180 8 0 = NaN"
    unfolding direct .
  show ?thesis unfolding direct swapped by (simp add: numberEquals_def)
qed

text \<open>
  Claim C4, at a failing input. The user stands at latitude 0, longitude 0. The response
  has the record \<open>atUser\<close> at that point, whose distance is 0, and the record \<open>nearLate\<close> a
  quarter of the equator away, at 10007.5 km. The ranking puts \<open>nearLate\<close> first and the
  record at distance 0 last: \<open>0 || Infinity\<close> is \<open>Infinity\<close>. The last conjunct is the same
  on two records whose distances are given as 0 and 12.3.
\<close>

theorem sortByDistance_zero_last:
  "calculateDistance exact 0 0 0 0 = Num 0 \<and>
   calculateDistance exact 0 0 0 90 = Num 10007.5 \<and>
   rankFacilities exact dateGetTime (Some origin) [atUser, nearLate] =
     [withDistance (Some (calculateDistance exact 0 0 0 90)) nearLate,
      withDistance (Some (Num 0)) atUser] \<and>
   sortByDistance [withDistance (Some (Num 0)) atUser, withDistance (Some (Num 12.3)) nearLate] =
     [withDistance (Some (Num 12.3)) nearLate, withDistance (Some (Num 0)) atUser]"
proof -
  have "rankFacilities exact dateGetTime (Some origin) [atUser, nearLate] =
      sortByDistance [withDistance (Some (Num 0)) atUser,
                      withDistance (Some (calculateDistance exact 0 0 0 90)) nearLate]"
    by (simp add: rankFacilities_def sortByDate_atUser_nearLate annotateDistance_def
        coordinates_examples calculateDistance_same)
  also have "\<dots> = [withDistance (Some (calculateDistance exact 0 0 0 90)) nearLate,
                   withDistance (Some (Num 0)) atUser]"
    by (simp add: sortByDistance_def sortWith_def compareDistances_def orInfinity_def
        isPositive_def withDistance_def calculateDistance_quarter)
  finally have r: "rankFacilities exact dateGetTime (Some origin) [atUser, nearLate] =
      [withDistance (Some (calculateDistance exact 0 0 0 90)) nearLate,
       withDistance (Some (Num 0)) atUser]" .
  have s: "sortByDistance [withDistance (Some (Num 0)) atUser, withDistance (Some (Num 12.3)) nearLate] =
     [withDistance (Some (Num 12.3)) nearLate, withDistance (Some (Num 0)) atUser]"
    by (simp add: sortByDistance_def sortWith_def compareDistances_def orInfinity_def
        isPositive_def withDistance_def)
  show ?thesis using r s calculateDistance_quarter calculateDistance_same [of 0 0] by blast
qed

text \<open>
  Claim C1, at a failing input. The user stands at latitude 0, longitude 0; the response
  has \<open>farEarly\<close> (date 2025-02-15, half of the equator away) and \<open>nearLate\<close> (date
  2025-03-01, a quarter of the equator away). The results are ordered by distance,
  \<open>nearLate\<close> first, and the summary names the date of that first record, 1 marca 2025,
  with its provider and locality; the earliest date of the results is 15 lutego 2025.
\<close>

theorem summary_date_of_nearest:
  "results (searchFacilities exact dateGetTime localeDatePL (ascii ''07'') (Some origin)
              (success [farEarly, nearLate]) idle) =
     [withDistance (Some (calculateDistance exact 0 0 0 90)) nearLate,
      withDistance (Some (calculateDistance exact 0 0 0 180)) farEarly] \<and>
   summary (searchFacilities exact dateGetTime localeDatePL (ascii ''07'') (Some origin)
              (success [farEarly, nearLate]) idle) =
     Some (ascii ''Znaleziono 2 plac'' @ [0xF3] @ ascii ''wek. Najbli'' @ [0x17C]
           @ ascii ''szy termin: 1 marca 2025 w Przychodnia B (RADOM).'') \<and>
   dateGetTime (dateOf farEarly) = Some 1739577600000 \<and>
   dateGetTime (dateOf nearLate) = Some 1740787200000 \<and>
   localeDatePL (dateOf farEarly) = ascii ''15 lutego 2025''"
proof -
  let ?ranked = "[withDistance (Some (calculateDistance exact 0 0 0 90)) nearLate,
                  withDistance (Some (calculateDistance exact 0 0 0 180)) farEarly]"
  have g: "getQueues (success [farEarly, nearLate]) = Inr [farEarly, nearLate]"
    by (simp add: getQueues_def request_def success_def)
  have t: "summaryText localeDatePL ?ranked =
      ascii ''Znaleziono 2 plac'' @ [0xF3] @ ascii ''wek. Najbli'' @ [0x17C]
      @ ascii ''szy termin: 1 marca 2025 w Przychodnia B (RADOM).''"
    by (simp add: summaryText_def formatDate_def withDistance_def nearLate_def date_eval
        ascii_def SP_def)
  have p: "ascii ''07'' \<noteq> []" by (simp add: ascii_def)
  have "searchFacilities exact dateGetTime localeDatePL (ascii ''07'') (Some origin)
          (success [farEarly, nearLate]) idle =
        idle\<lparr> loading := True, error := None, summary := None, results := ?ranked,
              summary := Some (summaryText localeDatePL ?ranked), loading := False \<rparr>"
    using p by (simp add: searchFacilities_def Let_def g rank_farEarly_nearLate)
  then have "results (searchFacilities exact dateGetTime localeDatePL (ascii ''07'') (Some origin)
              (success [farEarly, nearLate]) idle) = ?ranked"
    and "summary (searchFacilities exact dateGetTime localeDatePL (ascii ''07'') (Some origin)
              (success [farEarly, nearLate]) idle) = Some (summaryText localeDatePL ?ranked)"
    by simp_all
  moreover have "localeDatePL (dateOf farEarly) = ascii ''15 lutego 2025''"
    by (simp add: farEarly_def date_eval ascii_def SP_def)
  ultimately show ?thesis unfolding t using dates_examples by blast
qed

text \<open>
  Claim C6, as stated, at a response that carries the error envelope (code 4, reason
  \<open>invalid province\<close>) with the status 400: \<open>request\<close> tests \<open>response.ok\<close> before it
  reads the body, and throws the error of a failed request, whose message does not
  contain the reason.
\<close>

theorem request_envelope_counterexample:
  "request (Resolved envelope400) =
     Inl (Error (ascii ''NFZ API request failed: 400 Bad Request'')) \<and>
   \<not> includes_str (ascii ''NFZ API request failed: 400 Bad Request'') (ascii ''invalid province'') \<and>
   json envelope400 = Inr (ErrorResponse [invalidProvince]) \<and>
   error_code invalidProvince = 4 \<and> error_reason invalidProvince = ascii ''invalid province''"
proof -
  have "request (Resolved envelope400) =
     Inl (Error (ascii ''NFZ API request failed: 400 Bad Request''))"
    by (simp add: request_def envelope400_def showNat_digit showNat_step ascii_def SP_def)
  moreover have "\<not> includes_str (ascii ''NFZ API request failed: 400 Bad Request'')
      (ascii ''invalid province'')"
    by (simp add: ascii_def)
  ultimately show ?thesis by (simp add: envelope400_def invalidProvince_def)
qed

text \<open>
  Claim C6, amended. When the response has a success status and its body is an error
  envelope whose first error has the reason \<open>invalid province\<close>, the call is rejected with
  an \<open>Error\<close> whose message is \<open>NFZ API error: invalid province - \<close> followed by the
  solution text of that error; the message contains the reason, and the error differs
  from the one thrown for any response without a success status. The error is thrown
  again by the \<open>catch\<close> block, so it reaches the caller. (The code number of the error is
  not part of what is thrown.)
\<close>

theorem request_envelope_success_status:
  assumes "ok response" and "json response = Inr (ErrorResponse (e # rest))"
    and "error_reason e = ascii ''invalid province''"
  shows "request (Resolved response) =
           Inl (Error (ascii ''NFZ API error: invalid province - '' @ error_solution e)) \<and>
         includes_str (ascii ''NFZ API error: invalid province - '' @ error_solution e)
           (ascii ''invalid province'') \<and>
         (\<forall>other. \<not> ok other \<longrightarrow> request (Resolved other) \<noteq> request (Resolved response))"
proof (intro conjI allI impI)
  show r: "request (Resolved response) =
           Inl (Error (ascii ''NFZ API error: invalid province - '' @ error_solution e))"
    using assms by (simp add: request_def ascii_def)
  have "ascii ''NFZ API error: invalid province - '' @ error_solution e =
      ascii ''NFZ API error: '' @ ascii ''invalid province'' @ (ascii '' - '' @ error_solution e)"
    by (simp add: ascii_def)
  then show "includes_str (ascii ''NFZ API error: invalid province - '' @ error_solution e)
           (ascii ''invalid province'')"
    using includes_str_append [of "ascii ''NFZ API error: ''" "ascii ''invalid province''"
        "ascii '' - '' @ error_solution e"] by simp
  fix other :: "'a Response"
  assume "\<not> ok other"
  then have "request (Resolved other) =
      Inl (Error (ascii ''NFZ API request failed: '' @ showNat (status other) @ [SP]
                  @ statusText other))"
    by (simp add: request_def)
  then show "request (Resolved other) \<noteq> request (Resolved response)"
    unfolding r by (simp add: ascii_def)
qed

text \<open>The envelope with the status 200.\<close>

theorem request_envelope_success_status_witness:
  "ok envelope200 \<and> json envelope200 = Inr (ErrorResponse (invalidProvince # [])) \<and>
   error_reason invalidProvince = ascii ''invalid province'' \<and>
   request (Resolved envelope200) =
     Inl (Error (ascii ''NFZ API error: invalid province - use a code from 01 to 16''))"
proof -
  have h1: "ok envelope200" by (simp add: envelope200_def)
  have h2: "json envelope200 = Inr (ErrorResponse (invalidProvince # []))"
    by (simp add: envelope200_def)
  have h3: "error_reason invalidProvince = ascii ''invalid province''"
    by (simp add: invalidProvince_def)
  from request_envelope_success_status [OF h1 h2 h3]
  have "request (Resolved envelope200) =
     Inl (Error (ascii ''NFZ API error: invalid province - '' @ error_solution invalidProvince))"
    by blast
  then have "request (Resolved envelope200) =
     Inl (Error (ascii ''NFZ API error: invalid province - use a code from 01 to 16''))"
    by (simp add: invalidProvince_def ascii_def)
  with h1 h2 h3 show ?thesis by blast
qed

end
